theory Spec2Isabelle
  imports Main "HOL-Library.Char_ord" "HOL-Library.List_Lexorder"
begin

section \<open>Common types\<close>

text \<open>
  Byte arrays (\<open>Uint8Array\<close>) are lists of numbers. A JavaScript \<open>Error\<close> carries its
  message; every \<open>throw\<close> of the source is an \<open>Inl (Error msg)\<close> of the model.
  \<open>NotModelled\<close> is no exception of the program: it marks an input on which the model
  does not follow JavaScript (a field that does not have its declared type and would be
  coerced), so that nothing is claimed about such an input.
\<close>

type_synonym bytes = "nat list"

datatype error = Error string | NotModelled string

section \<open>Proof specifications (src/composite-proof/proof-spec.ts)\<close>

text \<open>
  \<open>Statements\<close> and \<open>MetaStatements\<close> are wrappers of a list of encoded statements, read
  through its field \<open>values\<close>; a \<open>SetupParam\<close> is read through its field \<open>value\<close>. The WASM function
  \<open>generateProofSpecG1\<close> is a parameter of the model.
\<close>

record Statements =
  stmt_values :: "bytes list"

record SetupParam =
  param_value :: bytes

type_synonym generateProofSpecG1 =
  "bytes list \<Rightarrow> bytes list \<Rightarrow> bytes list \<Rightarrow> bytes option \<Rightarrow> bytes"

record ProofSpecG1 =
  spec_value :: bytes

text \<open>The constructor of \<open>ProofSpecG1\<close>: \<open>setupParams ?? []\<close>, then the WASM call.\<close>

definition new_ProofSpecG1 ::
  "generateProofSpecG1 \<Rightarrow> Statements \<Rightarrow> Statements \<Rightarrow> SetupParam list option \<Rightarrow> bytes option
     \<Rightarrow> ProofSpecG1" where
  "new_ProofSpecG1 gen sts msts sps ctx =
     (let params = map param_value (case sps of None \<Rightarrow> [] | Some ps \<Rightarrow> ps)
      in \<lparr>spec_value = gen (stmt_values sts) (stmt_values msts) params ctx\<rparr>)"

record QuasiProofSpecG1 =
  statements :: Statements
  metaStatements :: Statements
  setupParams :: "SetupParam list"
  spec_context :: "bytes option"

text \<open>The constructor of \<open>QuasiProofSpecG1\<close>: every absent argument gets its empty default.\<close>

definition new_QuasiProofSpecG1 ::
  "Statements option \<Rightarrow> Statements option \<Rightarrow> SetupParam list option \<Rightarrow> bytes option
     \<Rightarrow> QuasiProofSpecG1" where
  "new_QuasiProofSpecG1 sts msts sps ctx =
     \<lparr>statements = (case sts of None \<Rightarrow> \<lparr>stmt_values = []\<rparr> | Some s \<Rightarrow> s),
      metaStatements = (case msts of None \<Rightarrow> \<lparr>stmt_values = []\<rparr> | Some m \<Rightarrow> m),
      setupParams = (case sps of None \<Rightarrow> [] | Some ps \<Rightarrow> ps),
      spec_context = ctx\<rparr>"

definition toProofSpec :: "generateProofSpecG1 \<Rightarrow> QuasiProofSpecG1 \<Rightarrow> ProofSpecG1" where
  "toProofSpec gen q =
     new_ProofSpecG1 gen (statements q) (metaStatements q) (Some (setupParams q)) (spec_context q)"

section \<open>Threshold signing rounds (src/threshold-sigs/common.ts)\<close>

text \<open>
  The abstract methods of \<open>ThresholdSigner\<close> (\<open>startRound1Func\<close>, ...) return the WASM
  functions of the concrete scheme. They are collected in a record; each returns \<open>None\<close>
  where the WASM call throws.
\<close>

record SignerFuncs =
  startRound1Func :: "nat \<Rightarrow> nat \<Rightarrow> nat list \<Rightarrow> bytes \<Rightarrow> (bytes \<times> bytes \<times> (nat \<times> bytes) list) option"
  processCommFunc :: "bytes \<Rightarrow> nat \<Rightarrow> bytes \<Rightarrow> bytes \<Rightarrow> bytes option"
  getSharesForOtherFunc :: "bytes \<Rightarrow> nat \<Rightarrow> (bytes \<times> bytes) option"
  getSharesForOthersFunc :: "bytes \<Rightarrow> nat list \<Rightarrow> (bytes \<times> bytes) list option"
  processSharesFunc :: "bytes \<Rightarrow> nat \<Rightarrow> bytes \<Rightarrow> bytes \<Rightarrow> bytes option"
  finishRound1Func :: "bytes \<Rightarrow> bytes \<Rightarrow> bytes option"
  startRound2Func :: "nat \<Rightarrow> nat list \<Rightarrow> bytes \<Rightarrow> bytes \<Rightarrow> bytes \<Rightarrow> (bytes \<times> (nat \<times> bytes) list) option"
  recvMsg1Func :: "bytes \<Rightarrow> nat \<Rightarrow> bytes \<Rightarrow> bytes \<Rightarrow> (bytes \<times> bytes) option"
  recvMsg2Func :: "bytes \<Rightarrow> nat \<Rightarrow> bytes \<Rightarrow> bytes \<Rightarrow> bytes option"
  finishRound2Func :: "bytes \<Rightarrow> bytes option"

record ThresholdSigner =
  signer_id :: nat
  others :: "nat list"
  sigBatchSize :: nat
  protocolId :: bytes
  comms :: "bytes option"
  commsForZero :: "(nat \<times> bytes) list option"
  msg1s :: "(nat \<times> bytes) list option"
  msg2s :: "(nat \<times> bytes) list option"
  round1State :: "bytes option"
  round1Output :: "bytes option"
  round2State :: "bytes option"
  round2Output :: "bytes option"

definition new_ThresholdSigner :: "nat \<Rightarrow> nat list \<Rightarrow> nat \<Rightarrow> bytes \<Rightarrow> ThresholdSigner" where
  "new_ThresholdSigner i os n p =
     \<lparr>signer_id = i, others = os, sigBatchSize = n, protocolId = p,
      comms = None, commsForZero = None, msg1s = None, msg2s = None,
      round1State = None, round1Output = None, round2State = None, round2Output = None\<rparr>"

definition hasStarted :: "ThresholdSigner \<Rightarrow> bool" where
  "hasStarted s = (round1State s \<noteq> None)"

definition hasFinishedRound1 :: "ThresholdSigner \<Rightarrow> bool" where
  "hasFinishedRound1 s = (round1Output s \<noteq> None)"

definition hasStartedRound2 :: "ThresholdSigner \<Rightarrow> bool" where
  "hasStartedRound2 s = (round2State s \<noteq> None)"

definition hasFinishedRound2 :: "ThresholdSigner \<Rightarrow> bool" where
  "hasFinishedRound2 s = (round2Output s \<noteq> None)"

definition ensureRound1Started :: "ThresholdSigner \<Rightarrow> error + unit" where
  "ensureRound1Started s =
     (if \<not> hasStarted s then Inl (Error ''Round 1 has not started yet'') else Inr ())"

definition ensureRound1Finished :: "ThresholdSigner \<Rightarrow> error + unit" where
  "ensureRound1Finished s =
     (if \<not> hasFinishedRound1 s then Inl (Error ''Round 1 has not finished yet'') else Inr ())"

definition ensureRound2Started :: "ThresholdSigner \<Rightarrow> error + unit" where
  "ensureRound2Started s =
     (if \<not> hasStartedRound2 s then Inl (Error ''Round 2 has not started yet'') else Inr ())"

text \<open>An exception of the WASM back end, propagated unchanged.\<close>

definition wasm_error :: error where
  "wasm_error = Error ''wasm''"

text \<open>
  \<open>upsert\<close> is \<open>Map.prototype.set\<close> on an association list kept in insertion order.
\<close>

fun upsert :: "'k \<Rightarrow> 'v \<Rightarrow> ('k \<times> 'v) list \<Rightarrow> ('k \<times> 'v) list" where
  "upsert k v [] = [(k, v)]"
| "upsert k v ((k', v') # kvs) = (if k = k' then (k, v) # kvs else (k', v') # upsert k v kvs)"

text \<open>
  Each method takes the signer and returns the updated signer, or the error thrown. The
  values the methods return to the caller are read from the updated signer
  (\<open>comms\<close>, \<open>commsForZero\<close>, \<open>msg1s\<close>, \<open>msg2s\<close>); the two share getters change nothing.
\<close>

definition startRound1 :: "SignerFuncs \<Rightarrow> ThresholdSigner \<Rightarrow> error + ThresholdSigner" where
  "startRound1 fs s =
     (case startRound1Func fs (sigBatchSize s) (signer_id s) (others s) (protocolId s) of
        None \<Rightarrow> Inl wasm_error
      | Some (r0, r1, r2) \<Rightarrow>
          Inr (s\<lparr>round1State := Some r0, comms := Some r1,
                 commsForZero := Some (fold (\<lambda>(i, c) m. upsert i c m) r2 [])\<rparr>))"

definition processReceivedCommitments ::
  "SignerFuncs \<Rightarrow> ThresholdSigner \<Rightarrow> nat \<Rightarrow> bytes \<Rightarrow> bytes \<Rightarrow> error + ThresholdSigner" where
  "processReceivedCommitments fs s senderId cms commsZeroShare =
     (case ensureRound1Started s of
        Inl e \<Rightarrow> Inl e
      | Inr _ \<Rightarrow>
          (case round1State s of
             None \<Rightarrow> Inl wasm_error
           | Some st \<Rightarrow>
               (case processCommFunc fs st senderId cms commsZeroShare of
                  None \<Rightarrow> Inl wasm_error
                | Some st' \<Rightarrow> Inr (s\<lparr>round1State := Some st'\<rparr>))))"

definition getSharesForOtherSigner ::
  "SignerFuncs \<Rightarrow> ThresholdSigner \<Rightarrow> nat \<Rightarrow> error + (bytes \<times> bytes)" where
  "getSharesForOtherSigner fs s signerId =
     (case ensureRound1Started s of
        Inl e \<Rightarrow> Inl e
      | Inr _ \<Rightarrow>
          (case round1State s of
             None \<Rightarrow> Inl wasm_error
           | Some st \<Rightarrow>
               (case getSharesForOtherFunc fs st signerId of
                  None \<Rightarrow> Inl wasm_error
                | Some sz \<Rightarrow> Inr sz)))"

definition getSharesForOtherSigners ::
  "SignerFuncs \<Rightarrow> ThresholdSigner \<Rightarrow> nat list \<Rightarrow> error + (bytes \<times> bytes) list" where
  "getSharesForOtherSigners fs s signerIds =
     (case ensureRound1Started s of
        Inl e \<Rightarrow> Inl e
      | Inr _ \<Rightarrow>
          (case round1State s of
             None \<Rightarrow> Inl wasm_error
           | Some st \<Rightarrow>
               (case getSharesForOthersFunc fs st signerIds of
                  None \<Rightarrow> Inl wasm_error
                | Some lst \<Rightarrow> Inr lst)))"

definition processReceivedShares ::
  "SignerFuncs \<Rightarrow> ThresholdSigner \<Rightarrow> nat \<Rightarrow> bytes \<Rightarrow> bytes \<Rightarrow> error + ThresholdSigner" where
  "processReceivedShares fs s senderId shares zeroShares =
     (case ensureRound1Started s of
        Inl e \<Rightarrow> Inl e
      | Inr _ \<Rightarrow>
          (case round1State s of
             None \<Rightarrow> Inl wasm_error
           | Some st \<Rightarrow>
               (case processSharesFunc fs st senderId shares zeroShares of
                  None \<Rightarrow> Inl wasm_error
                | Some st' \<Rightarrow> Inr (s\<lparr>round1State := Some st'\<rparr>))))"

definition finishR1 :: "SignerFuncs \<Rightarrow> ThresholdSigner \<Rightarrow> bytes \<Rightarrow> error + ThresholdSigner" where
  "finishR1 fs s secretKey =
     (case ensureRound1Started s of
        Inl e \<Rightarrow> Inl e
      | Inr _ \<Rightarrow>
          (case round1State s of
             None \<Rightarrow> Inl wasm_error
           | Some st \<Rightarrow>
               (case finishRound1Func fs st secretKey of
                  None \<Rightarrow> Inl wasm_error
                | Some out \<Rightarrow> Inr (s\<lparr>round1Output := Some out\<rparr>))))"

definition startRound2 ::
  "SignerFuncs \<Rightarrow> ThresholdSigner \<Rightarrow> bytes \<Rightarrow> bytes \<Rightarrow> error + ThresholdSigner" where
  "startRound2 fs s baseOTOut gadgetVector =
     (case ensureRound1Finished s of
        Inl e \<Rightarrow> Inl e
      | Inr _ \<Rightarrow>
          (case round1Output s of
             None \<Rightarrow> Inl wasm_error
           | Some out \<Rightarrow>
               (case startRound2Func fs (signer_id s) (others s) out baseOTOut gadgetVector of
                  None \<Rightarrow> Inl wasm_error
                | Some (r0, r1) \<Rightarrow>
                    Inr (s\<lparr>round2State := Some r0,
                           msg1s := Some (fold (\<lambda>(i, m) acc. upsert i m acc) r1 [])\<rparr>))))"

definition processReceivedMsg1 ::
  "SignerFuncs \<Rightarrow> ThresholdSigner \<Rightarrow> nat \<Rightarrow> bytes \<Rightarrow> bytes \<Rightarrow> error + ThresholdSigner" where
  "processReceivedMsg1 fs s senderId msg gadgetVector =
     (case ensureRound2Started s of
        Inl e \<Rightarrow> Inl e
      | Inr _ \<Rightarrow>
          (case round2State s of
             None \<Rightarrow> Inl wasm_error
           | Some st \<Rightarrow>
               (case recvMsg1Func fs st senderId msg gadgetVector of
                  None \<Rightarrow> Inl wasm_error
                | Some (r0, r1) \<Rightarrow>
                    Inr (s\<lparr>round2State := Some r0,
                           msg2s := Some (upsert senderId r1
                                      (case msg2s s of None \<Rightarrow> [] | Some m \<Rightarrow> m))\<rparr>))))"

definition processReceivedMsg2 ::
  "SignerFuncs \<Rightarrow> ThresholdSigner \<Rightarrow> nat \<Rightarrow> bytes \<Rightarrow> bytes \<Rightarrow> error + ThresholdSigner" where
  "processReceivedMsg2 fs s senderId msg gadgetVector =
     (case ensureRound2Started s of
        Inl e \<Rightarrow> Inl e
      | Inr _ \<Rightarrow>
          (case round2State s of
             None \<Rightarrow> Inl wasm_error
           | Some st \<Rightarrow>
               (case recvMsg2Func fs st senderId msg gadgetVector of
                  None \<Rightarrow> Inl wasm_error
                | Some st' \<Rightarrow> Inr (s\<lparr>round2State := Some st'\<rparr>))))"

definition finishRound2 :: "SignerFuncs \<Rightarrow> ThresholdSigner \<Rightarrow> error + ThresholdSigner" where
  "finishRound2 fs s =
     (case ensureRound2Started s of
        Inl e \<Rightarrow> Inl e
      | Inr _ \<Rightarrow>
          (case round2State s of
             None \<Rightarrow> Inl wasm_error
           | Some st \<Rightarrow>
               (case finishRound2Func fs st of
                  None \<Rightarrow> Inl wasm_error
                | Some out \<Rightarrow> Inr (s\<lparr>round2Output := Some out\<rparr>))))"

text \<open>
  A call of one of the methods, with its arguments. \<open>call\<close> performs it; \<open>run\<close> performs a
  sequence of calls on a signer, as a client does: a call that throws leaves the signer as
  it was (every method throws before its first assignment), and the calls that returned
  are logged in order.
\<close>

datatype signer_call =
    StartRound1
  | ProcessReceivedCommitments nat bytes bytes
  | GetSharesForOtherSigner nat
  | GetSharesForOtherSigners "nat list"
  | ProcessReceivedShares nat bytes bytes
  | FinishR1 bytes
  | StartRound2 bytes bytes
  | ProcessReceivedMsg1 nat bytes bytes
  | ProcessReceivedMsg2 nat bytes bytes
  | FinishRound2

fun call :: "SignerFuncs \<Rightarrow> ThresholdSigner \<Rightarrow> signer_call \<Rightarrow> error + ThresholdSigner" where
  "call fs s StartRound1 = startRound1 fs s"
| "call fs s (ProcessReceivedCommitments i c z) = processReceivedCommitments fs s i c z"
| "call fs s (GetSharesForOtherSigner i) =
     (case getSharesForOtherSigner fs s i of Inl e \<Rightarrow> Inl e | Inr _ \<Rightarrow> Inr s)"
| "call fs s (GetSharesForOtherSigners ids) =
     (case getSharesForOtherSigners fs s ids of Inl e \<Rightarrow> Inl e | Inr _ \<Rightarrow> Inr s)"
| "call fs s (ProcessReceivedShares i sh z) = processReceivedShares fs s i sh z"
| "call fs s (FinishR1 sk) = finishR1 fs s sk"
| "call fs s (StartRound2 b g) = startRound2 fs s b g"
| "call fs s (ProcessReceivedMsg1 i m g) = processReceivedMsg1 fs s i m g"
| "call fs s (ProcessReceivedMsg2 i m g) = processReceivedMsg2 fs s i m g"
| "call fs s FinishRound2 = finishRound2 fs s"

fun run ::
  "SignerFuncs \<Rightarrow> ThresholdSigner \<times> signer_call list \<Rightarrow> signer_call list
     \<Rightarrow> ThresholdSigner \<times> signer_call list" where
  "run fs (s, log) [] = (s, log)"
| "run fs (s, log) (c # cs) =
     (case call fs s c of
        Inl e \<Rightarrow> run fs (s, log) cs
      | Inr s' \<Rightarrow> run fs (s', log @ [c]) cs)"

fun needsRound1Started :: "signer_call \<Rightarrow> bool" where
  "needsRound1Started (ProcessReceivedCommitments i c z) = True"
| "needsRound1Started (GetSharesForOtherSigner i) = True"
| "needsRound1Started (GetSharesForOtherSigners ids) = True"
| "needsRound1Started (ProcessReceivedShares i sh z) = True"
| "needsRound1Started c = False"

fun needsRound2Started :: "signer_call \<Rightarrow> bool" where
  "needsRound2Started (ProcessReceivedMsg1 i m g) = True"
| "needsRound2Started (ProcessReceivedMsg2 i m g) = True"
| "needsRound2Started FinishRound2 = True"
| "needsRound2Started c = False"

fun isStartRound2 :: "signer_call \<Rightarrow> bool" where
  "isStartRound2 (StartRound2 b g) = True"
| "isStartRound2 c = False"

fun isFinishR1 :: "signer_call \<Rightarrow> bool" where
  "isFinishR1 (FinishR1 sk) = True"
| "isFinishR1 c = False"

text \<open>
  \<open>allowed earlier c\<close>: the call \<open>c\<close> may come after the calls \<open>earlier\<close>. \<open>inOrder log\<close>:
  every call of the log is allowed after the calls before it.
\<close>

definition allowed :: "signer_call list \<Rightarrow> signer_call \<Rightarrow> bool" where
  "allowed earlier c =
     (if needsRound1Started c \<or> isFinishR1 c then StartRound1 \<in> set earlier
      else if isStartRound2 c then list_ex isFinishR1 earlier
      else if needsRound2Started c then list_ex isStartRound2 earlier
      else True)"

definition inOrder :: "signer_call list \<Rightarrow> bool" where
  "inOrder log = list_all (\<lambda>k. allowed (take k log) (log ! k)) [0..<length log]"

text \<open>What links the fields of a signer to the log of the calls it performed.\<close>

definition signer_inv :: "ThresholdSigner \<times> signer_call list \<Rightarrow> bool" where
  "signer_inv sl = (case sl of (s, log) \<Rightarrow>
     (hasStarted s \<longrightarrow> StartRound1 \<in> set log) \<and>
     (hasFinishedRound1 s \<longrightarrow> list_ex isFinishR1 log) \<and>
     (hasStartedRound2 s \<longrightarrow> list_ex isStartRound2 log) \<and>
     inOrder log)"

text \<open>Back-end functions for the examples: each returns fixed bytes.\<close>

definition demo_funcs :: SignerFuncs where
  "demo_funcs =
     \<lparr>startRound1Func = (\<lambda>n i os p. Some ([1], [2], [(2, [3])])),
      processCommFunc = (\<lambda>st i c z. Some (st @ [4])),
      getSharesForOtherFunc = (\<lambda>st i. Some ([5], [6])),
      getSharesForOthersFunc = (\<lambda>st ids. Some (map (\<lambda>i. ([5], [6])) ids)),
      processSharesFunc = (\<lambda>st i sh z. Some (st @ [7])),
      finishRound1Func = (\<lambda>st sk. Some (st @ sk)),
      startRound2Func = (\<lambda>i os out b g. Some ([8], [(2, [9])])),
      recvMsg1Func = (\<lambda>st i m g. Some (st @ [10], [11])),
      recvMsg2Func = (\<lambda>st i m g. Some (st @ [12])),
      finishRound2Func = (\<lambda>st. Some (st @ [13]))\<rparr>"

section \<open>JSON values\<close>

text \<open>
  A JavaScript number is modelled by the decimal it prints as: \<open>Dec m e\<close> is \<open>m \<times> 10\<^sup>e\<close>,
  canonical when \<open>m\<close> is not a multiple of ten (zero is \<open>Dec 0 0\<close>). So \<open>0.001\<close> is
  \<open>Dec 1 (-3)\<close> and \<open>-100\<close> is \<open>Dec (-1) 2\<close>. \<open>NaN\<close> and the infinities, which no JSON
  document holds, are not modelled. Strings are sequences of code units; an object is the
  list of its entries in insertion order.
\<close>

datatype jsnum = Dec int int

datatype json =
    JNull
  | JBool bool
  | JNum jsnum
  | JStr string
  | JArr "json list"
  | JObj "(string \<times> json) list"

fun canonical :: "jsnum \<Rightarrow> bool" where
  "canonical (Dec m e) = (if m = 0 then e = 0 else \<not> 10 dvd m)"

definition digit_char :: "nat \<Rightarrow> char" where
  "digit_char d = ''0123456789'' ! (d mod 10)"

text \<open>The decimal digits of a natural number, as \<open>String(i)\<close> prints an array index.\<close>

fun show_nat :: "nat \<Rightarrow> string" where
  "show_nat n = (if n < 10 then [digit_char n] else show_nat (n div 10) @ [digit_char (n mod 10)])"

declare show_nat.simps [simp del]

text \<open>\<open>obj[key]\<close> on the entries of an object: \<open>None\<close> is \<open>undefined\<close>.\<close>

fun get_field :: "json \<Rightarrow> string \<Rightarrow> json option" where
  "get_field (JObj kvs) k = map_of kvs k"
| "get_field v k = None"

text \<open>
  The own enumerable entries of a value, as object spread and \<open>Object.entries\<close> see them:
  the entries of an object, the elements of an array under their indices, the code units
  of a string under their indices, nothing for a number or a boolean.
\<close>

fun indexed :: "nat \<Rightarrow> 'a list \<Rightarrow> (string \<times> 'a) list" where
  "indexed i [] = []"
| "indexed i (x # xs) = (show_nat i, x) # indexed (Suc i) xs"

fun own_entries :: "json \<Rightarrow> (string \<times> json) list" where
  "own_entries (JObj kvs) = kvs"
| "own_entries (JArr xs) = indexed 0 xs"
| "own_entries (JStr s) = indexed 0 (map (\<lambda>c. JStr [c]) s)"
| "own_entries v = []"

text \<open>Assigning the entries \<open>kvs\<close>, in order, to an object that holds \<open>acc\<close>.\<close>

definition assign_all :: "('k \<times> 'v) list \<Rightarrow> ('k \<times> 'v) list \<Rightarrow> ('k \<times> 'v) list" where
  "assign_all kvs acc = fold (\<lambda>(k, v) m. upsert k v m) kvs acc"

section \<open>Names of the credential format\<close>

text \<open>
  Modelled from the spec: the constants of \<open>types-and-consts.ts\<close>, which is not among the
  sources. The spec names the reserved attribute names \<open>cryptoVersion\<close>,
  \<open>credentialSchema\<close>, \<open>credentialSubject\<close> and \<open>credentialStatus\<close>, the status leaves
  \<open>id\<close>, \<open>type\<close>, \<open>revocationCheck\<close> and \<open>revocationId\<close>, and the schema type
  \<open>JsonSchemaValidator2018\<close>.
\<close>

definition CRYPTO_VERSION_STR :: string where "CRYPTO_VERSION_STR = ''cryptoVersion''"
definition SCHEMA_STR :: string where "SCHEMA_STR = ''credentialSchema''"
definition SUBJECT_STR :: string where "SUBJECT_STR = ''credentialSubject''"
definition STATUS_STR :: string where "STATUS_STR = ''credentialStatus''"
definition ID_STR :: string where "ID_STR = ''id''"
definition TYPE_STR :: string where "TYPE_STR = ''type''"
definition REV_CHECK_STR :: string where "REV_CHECK_STR = ''revocationCheck''"
definition REV_ID_STR :: string where "REV_ID_STR = ''revocationId''"
definition SCHEMA_TYPE_STR :: string where "SCHEMA_TYPE_STR = ''JsonSchemaValidator2018''"

section \<open>Flattening a schema (src/anonymous-credentials/schema.ts)\<close>

text \<open>
  Modelled from the spec: \<open>flattenTill2ndLastKey\<close> of \<open>util.ts\<close>, which is not among the
  sources. The spec: flattening yields \<open>(names, types)\<close>, two parallel sequences of
  attribute paths and leaf type descriptors, where a nested object contributes
  \<open><parent>.<child>\<close> entries, array items contribute \<open><parent>.<index>.<child>\<close> with
  zero-based indices, and the names are sorted in lexicographic order of full paths. As the
  function's name says, a path stops at the second last key: the last key is a field of
  the leaf's descriptor (\<open>type\<close>, \<open>minimum\<close>, ...).

  \<open>flat_value\<close> lists the full dotted path of every innermost value (an empty object or
  array is innermost too); \<open>split_last_key\<close> cuts a path at its last dot;
  \<open>group_paths\<close> collects, per path prefix, the descriptor's fields.
\<close>

definition newKey :: "string \<Rightarrow> string \<Rightarrow> string" where
  "newKey prev k = (if prev = [] then k else prev @ ''.'' @ k)"

fun flat_value :: "string \<Rightarrow> json \<Rightarrow> (string \<times> json) list"
  and flat_fields :: "string \<Rightarrow> (string \<times> json) list \<Rightarrow> (string \<times> json) list"
  and flat_items :: "string \<Rightarrow> nat \<Rightarrow> json list \<Rightarrow> (string \<times> json) list" where
  "flat_value p (JObj (kv # kvs)) = flat_fields p (kv # kvs)"
| "flat_value p (JArr (x # xs)) = flat_items p 0 (x # xs)"
| "flat_value p v = [(p, v)]"
| "flat_fields p [] = []"
| "flat_fields p ((k, v) # kvs) = flat_value (newKey p k) v @ flat_fields p kvs"
| "flat_items p i [] = []"
| "flat_items p i (x # xs) = flat_value (newKey p (show_nat i)) x @ flat_items p (Suc i) xs"

definition split_last_key :: "string \<Rightarrow> string \<times> string" where
  "split_last_key k =
     (let r = rev k
      in (rev (drop 1 (dropWhile (\<lambda>c. c \<noteq> CHR ''.'') r)),
          rev (takeWhile (\<lambda>c. c \<noteq> CHR ''.'') r)))"

definition group_step ::
  "string \<times> json \<Rightarrow> (string \<times> (string \<times> json) list) list
     \<Rightarrow> (string \<times> (string \<times> json) list) list" where
  "group_step = (\<lambda>(k, v) acc.
     (case split_last_key k of
        (name, t) \<Rightarrow>
          upsert name (upsert t v (case map_of acc name of None \<Rightarrow> [] | Some d \<Rightarrow> d)) acc))"

definition group_paths ::
  "(string \<times> json) list \<Rightarrow> (string \<times> (string \<times> json) list) list" where
  "group_paths paths = fold group_step paths []"

definition flattenTill2ndLastKey :: "(string \<times> json) list \<Rightarrow> string list \<times> json list" where
  "flattenTill2ndLastKey obj =
     (let flattened = group_paths (flat_fields [] obj);
          keys = sort (map fst flattened)
      in (keys, map (\<lambda>k. case map_of flattened k of None \<Rightarrow> JNull | Some d \<Rightarrow> JObj d) keys))"

text \<open>
  From here on the definitions follow the source again. \<open>IMPLICIT_FIELDS\<close> and
  \<open>flattenSchemaObj\<close>: the implicit fields are spread into one object with the schema's own
  entries, and that object is flattened.
\<close>

definition string_type :: json where
  "string_type = JObj [(''type'', JStr ''string'')]"

definition IMPLICIT_FIELDS :: "(string \<times> json) list" where
  "IMPLICIT_FIELDS = [(CRYPTO_VERSION_STR, string_type), (SCHEMA_STR, string_type)]"

definition flattenSchemaObj :: "json \<Rightarrow> string list \<times> json list" where
  "flattenSchemaObj schema =
     flattenTill2ndLastKey (assign_all (own_entries schema) IMPLICIT_FIELDS)"

section \<open>Numbers of a JSON schema (src/anonymous-credentials/schema.ts)\<close>

text \<open>
  \<open>Number.prototype.toString\<close> as ECMAScript defines it on the shortest decimal
  \<open>s \<times> 10\<^sup>n\<^sup>-\<^sup>k\<close> of the number, \<open>k\<close> the number of digits of \<open>s\<close>: plain digits up to
  \<open>10\<^sup>2\<^sup>1\<close>, a leading \<open>0.\<close> down to \<open>10\<^sup>-\<^sup>6\<close>, exponent notation outside.
\<close>

definition exponent_part :: "int \<Rightarrow> string" where
  "exponent_part x = ''e'' @ (if x < 0 then ''-'' else ''+'') @ show_nat (nat \<bar>x\<bar>)"

definition pos_toString :: "nat \<Rightarrow> int \<Rightarrow> string" where
  "pos_toString s e =
     (let ds = show_nat s; k = int (length ds); n = k + e
      in if k \<le> n \<and> n \<le> 21 then ds @ replicate (nat (n - k)) CHR ''0''
         else if 0 < n \<and> n \<le> 21 then take (nat n) ds @ ''.'' @ drop (nat n) ds
         else if - 6 < n \<and> n \<le> 0 then ''0.'' @ replicate (nat (- n)) CHR ''0'' @ ds
         else if k = 1 then ds @ exponent_part (n - 1)
         else take 1 ds @ ''.'' @ drop 1 ds @ exponent_part (n - 1))"

fun js_toString :: "jsnum \<Rightarrow> string" where
  "js_toString (Dec m e) =
     (if m = 0 then ''0''
      else if m < 0 then ''-'' @ pos_toString (nat (- m)) e
      else pos_toString (nat m) e)"

text \<open>\<open>x >= 0\<close> on a number.\<close>

fun ge_zero :: "jsnum \<Rightarrow> bool" where
  "ge_zero (Dec m e) = (0 \<le> m)"

text \<open>The number that an integer is, in canonical form.\<close>

function norm_dec :: "int \<Rightarrow> int \<Rightarrow> jsnum" where
  "norm_dec m e =
     (if m = 0 then Dec 0 0
      else if 10 dvd m then norm_dec (m div 10) (e + 1)
      else Dec m e)"
  by pat_completeness auto
termination
  by (relation "measure (\<lambda>(m, e). nat \<bar>m\<bar>)") auto

declare norm_dec.simps [simp del]

definition num_of_nat :: "nat \<Rightarrow> jsnum" where
  "num_of_nat n = norm_dec (int n) 0"

text \<open>
  The regular expression \<open>/^0?\.(0*1$)/\<close> of \<open>getDecimalPlaces\<close>: an optional \<open>0\<close>, a dot,
  then the group: zeros and a final \<open>1\<close> at the end of the string. \<open>match_re\<close> returns the
  group.
\<close>

definition match_re :: "string \<Rightarrow> string option" where
  "match_re str =
     (let after_dot =
            (if take 2 str = ''0.'' then Some (drop 2 str)
             else if take 1 str = ''.'' then Some (drop 1 str)
             else None)
      in case after_dot of
           None \<Rightarrow> None
         | Some r \<Rightarrow>
             if r \<noteq> [] \<and> last r = CHR ''1'' \<and> list_all (\<lambda>c. c = CHR ''0'') (butlast r)
             then Some r else None)"

definition getDecimalPlaces :: "jsnum \<Rightarrow> error + nat" where
  "getDecimalPlaces d =
     (case match_re (js_toString d) of
        None \<Rightarrow>
          Inl (Error (''Needed a number with a decimal point like .1, .01, .001, etc but found ''
                       @ js_toString d))
      | Some grp \<Rightarrow> Inr (length grp))"

record ISchemaParsingOpts =
  useDefaults :: bool
  defaultMinimumInteger :: jsnum
  defaultDecimalPlaces :: jsnum

definition DefaultSchemaParsingOpts :: ISchemaParsingOpts where
  "DefaultSchemaParsingOpts =
     \<lparr>useDefaults = False,
      defaultMinimumInteger = Dec (- 4294967295) 0,
      defaultDecimalPlaces = Dec 0 0\<rparr>"

definition STR_TYPE :: string where "STR_TYPE = ''string''"
definition STR_REV_TYPE :: string where "STR_REV_TYPE = ''stringReversible''"
definition POSITIVE_INT_TYPE :: string where "POSITIVE_INT_TYPE = ''positiveInteger''"
definition INT_TYPE :: string where "INT_TYPE = ''integer''"
definition POSITIVE_NUM_TYPE :: string where "POSITIVE_NUM_TYPE = ''positiveDecimalNumber''"
definition NUM_TYPE :: string where "NUM_TYPE = ''decimalNumber''"

text \<open>
  \<open>parseIntegerType\<close> and \<open>parseNumberType\<close> take the fields of the node that their
  parameter types declare: \<open>minimum\<close> and \<open>multipleOf\<close>, a number or \<open>undefined\<close>.
\<close>

definition parseIntegerType :: "jsnum option \<Rightarrow> ISchemaParsingOpts \<Rightarrow> string \<Rightarrow> error + json" where
  "parseIntegerType minimum parsingOpts nodeName =
     (if \<not> useDefaults parsingOpts \<and> minimum = None
      then Inl (Error (''No minimum was provided for key '' @ nodeName))
      else
        (let min = (case minimum of Some m \<Rightarrow> m | None \<Rightarrow> defaultMinimumInteger parsingOpts)
         in Inr (if ge_zero min then JObj [(''type'', JStr POSITIVE_INT_TYPE)]
                 else JObj [(''type'', JStr INT_TYPE), (''minimum'', JNum min)])))"

definition parseNumberType ::
  "jsnum option \<Rightarrow> jsnum option \<Rightarrow> ISchemaParsingOpts \<Rightarrow> string \<Rightarrow> error + json" where
  "parseNumberType minimum multipleOf parsingOpts nodeName =
     (if \<not> useDefaults parsingOpts \<and> (minimum = None \<or> multipleOf = None)
      then Inl (Error (''both minimum and multipleOf must be provided for key '' @ nodeName))
      else
        (let min = (case minimum of Some m \<Rightarrow> m | None \<Rightarrow> defaultMinimumInteger parsingOpts)
         in case (case multipleOf of
                    Some mo \<Rightarrow> map_sum id num_of_nat (getDecimalPlaces mo)
                  | None \<Rightarrow> Inr (defaultDecimalPlaces parsingOpts)) of
              Inl err \<Rightarrow> Inl err
            | Inr d \<Rightarrow>
                Inr (if ge_zero min
                     then JObj [(''type'', JStr POSITIVE_NUM_TYPE), (''decimalPlaces'', JNum d)]
                     else JObj [(''type'', JStr NUM_TYPE), (''minimum'', JNum min),
                                (''decimalPlaces'', JNum d)])))"

section \<open>From JSON schema to the internal schema (src/anonymous-credentials/schema.ts)\<close>

definition createFullName :: "string \<Rightarrow> string \<Rightarrow> string" where
  "createFullName old neww = (if length old = 0 then neww else old @ ''.'' @ neww)"

definition JSON_SCHEMA_OVERRIDE_DEFS :: "(string \<times> json) list" where
  "JSON_SCHEMA_OVERRIDE_DEFS =
     [(''#/definitions/encryptableString'',
         JObj [(''type'', JStr STR_REV_TYPE), (''compress'', JBool False)]),
      (''#/definitions/encryptableCompString'',
         JObj [(''type'', JStr STR_REV_TYPE), (''compress'', JBool True)])]"

text \<open>
  The names every object literal inherits from \<open>Object.prototype\<close>: looking one of them up
  in \<open>JSON_SCHEMA_OVERRIDE_DEFS\<close> gives a function, which is no JSON value.
\<close>

definition object_prototype_keys :: "string list" where
  "object_prototype_keys =
     [''constructor'', ''hasOwnProperty'', ''isPrototypeOf'', ''propertyIsEnumerable'',
      ''toLocaleString'', ''toString'', ''valueOf'', ''__proto__'', ''__defineGetter__'',
      ''__defineSetter__'', ''__lookupGetter__'', ''__lookupSetter__'']"

text \<open>What \<open>if (ref)\<close> tests.\<close>

fun truthy :: "json \<Rightarrow> bool" where
  "truthy JNull = False"
| "truthy (JBool b) = b"
| "truthy (JNum (Dec m e)) = (m \<noteq> 0)"
| "truthy (JStr s) = (s \<noteq> [])"
| "truthy (JArr xs) = True"
| "truthy (JObj kvs) = True"

text \<open>\<open>ref.replace('#', '')\<close>: the first \<open>#\<close> is removed.\<close>

fun remove_first_hash :: "string \<Rightarrow> string" where
  "remove_first_hash [] = []"
| "remove_first_hash (c # cs) = (if c = CHR ''#'' then cs else c # remove_first_hash cs)"

text \<open>
  A field that the source reads as a number: absent, a number, or (outside the model) a
  value that JavaScript would coerce.
\<close>

definition num_field :: "json \<Rightarrow> string \<Rightarrow> error + jsnum option" where
  "num_field node k =
     (case get_field node k of
        None \<Rightarrow> Inr None
      | Some (JNum x) \<Rightarrow> Inr (Some x)
      | Some _ \<Rightarrow> Inl (NotModelled (''field '' @ k @ '' is not a number'')))"

text \<open>
  Running \<open>f\<close> over a list as \<open>forEach\<close> and \<open>map\<close> do: the first exception ends the loop.
  \<open>None\<close> is a recursion deeper than the fuel.
\<close>

fun traverse :: "('a \<Rightarrow> (error + 'b) option) \<Rightarrow> 'a list \<Rightarrow> (error + 'b list) option" where
  "traverse f [] = Some (Inr [])"
| "traverse f (x # xs) =
     (case f x of
        None \<Rightarrow> None
      | Some (Inl err) \<Rightarrow> Some (Inl err)
      | Some (Inr y) \<Rightarrow>
          (case traverse f xs of
             None \<Rightarrow> None
           | Some (Inl err) \<Rightarrow> Some (Inl err)
           | Some (Inr ys) \<Rightarrow> Some (Inr (y # ys))))"

text \<open>
  \<open>convertToInternalSchemaObj\<close>, in two parts. \<open>convert_node\<close> is the switch on the type of
  the node, once a reference is resolved; \<open>recurse v name\<close> stands for the recursive call
  on a child \<open>v\<close> under the name \<open>name\<close>. In the array case the source names an item by
  the item itself, which a template string prints as \<open>[object Object]\<close>; the name is used in
  error messages only.
\<close>

definition convert_node ::
  "(json \<Rightarrow> string \<Rightarrow> (error + json) option) \<Rightarrow> ISchemaParsingOpts \<Rightarrow> string \<Rightarrow> json
     \<Rightarrow> (error + json) option" where
  "convert_node recurse parsingOpts nodeKeyName node =
     (case get_field node ''type'' of
        None \<Rightarrow>
          Some (Inl (Error (''Cannot parse node key '' @ nodeKeyName
                              @ '' for JSON-schema syntax'')))
      | Some (JStr typ) \<Rightarrow>
          if typ = ''string'' then Some (Inr node)
          else if typ = ''integer'' then
            Some (case num_field node ''minimum'' of
                    Inl err \<Rightarrow> Inl err
                  | Inr minimum \<Rightarrow> parseIntegerType minimum parsingOpts nodeKeyName)
          else if typ = ''number'' then
            Some (case num_field node ''minimum'' of
                    Inl err \<Rightarrow> Inl err
                  | Inr minimum \<Rightarrow>
                      (case num_field node ''multipleOf'' of
                         Inl err \<Rightarrow> Inl err
                       | Inr multipleOf \<Rightarrow>
                           parseNumberType minimum multipleOf parsingOpts nodeKeyName))
          else if typ = ''object'' then
            (case get_field node ''properties'' of
               None \<Rightarrow>
                 Some (Inl (Error (''Schema object key '' @ nodeKeyName
                                     @ '' must have properties object'')))
             | Some JNull \<Rightarrow>
                 Some (Inl (Error ''TypeError: Cannot convert undefined or null to object''))
             | Some props \<Rightarrow>
                 (case traverse
                         (\<lambda>(k, v).
                            (case recurse v (createFullName nodeKeyName k) of
                               None \<Rightarrow> None
                             | Some (Inl err) \<Rightarrow> Some (Inl err)
                             | Some (Inr c) \<Rightarrow> Some (Inr (k, c))))
                         (own_entries props) of
                    None \<Rightarrow> None
                  | Some (Inl err) \<Rightarrow> Some (Inl err)
                  | Some (Inr kcs) \<Rightarrow> Some (Inr (JObj (assign_all kcs [])))))
          else if typ = ''array'' then
            (case get_field node ''items'' of
               Some (JArr items) \<Rightarrow>
                 (case traverse
                         (\<lambda>i. recurse i (createFullName nodeKeyName ''[object Object]''))
                         items of
                    None \<Rightarrow> None
                  | Some (Inl err) \<Rightarrow> Some (Inl err)
                  | Some (Inr cs) \<Rightarrow> Some (Inr (JArr cs)))
             | _ \<Rightarrow> Some (Inl (Error ''TypeError: node.items.map is not a function'')))
          else Some (Inl (Error (''Unknown type for key '' @ nodeKeyName
                                   @ '' in schema: '' @ typ)))
      | Some _ \<Rightarrow>
          Some (Inl (Error (''Unknown type for key '' @ nodeKeyName @ '' in schema''))))"

text \<open>
  The function itself: the reference, if there is one, is replaced by its override or
  looked up in the root document. \<open>pointer_get\<close> is \<open>get\<close> of the library json-pointer
  (\<open>None\<close> where it throws). The recursion follows references into the root document, so
  it need not end on a document that refers to itself; the model counts the nesting down
  from \<open>fuel\<close> and returns \<open>None\<close> when it is used up.
\<close>

fun convertToInternalSchemaObj ::
  "(json \<Rightarrow> string \<Rightarrow> json option) \<Rightarrow> nat \<Rightarrow> json \<Rightarrow> ISchemaParsingOpts \<Rightarrow> string \<Rightarrow> json option
     \<Rightarrow> (error + json) option" where
  "convertToInternalSchemaObj pointer_get 0 inputNode parsingOpts nodeKeyName rootObject = None"
| "convertToInternalSchemaObj pointer_get (Suc fuel) inputNode parsingOpts nodeKeyName rootObject =
     (if inputNode = JNull then Some (Inl (Error ''TypeError: Cannot read properties of null''))
      else
        (let ref = get_field inputNode ''$ref'';
             rootNode = (case rootObject of Some r \<Rightarrow> r | None \<Rightarrow> inputNode);
             recurse = (\<lambda>v name.
               convertToInternalSchemaObj pointer_get fuel v parsingOpts name (Some rootNode))
         in case ref of
              None \<Rightarrow> convert_node recurse parsingOpts nodeKeyName inputNode
            | Some r \<Rightarrow>
                if \<not> truthy r then convert_node recurse parsingOpts nodeKeyName inputNode
                else
                  (case r of
                     JStr rs \<Rightarrow>
                       if rs \<in> set object_prototype_keys
                       then Some (Inl (NotModelled ''$ref names a property of Object.prototype''))
                       else
                         (case map_of JSON_SCHEMA_OVERRIDE_DEFS rs of
                            Some overrideRef \<Rightarrow> Some (Inr overrideRef)
                          | None \<Rightarrow>
                              (case pointer_get rootNode (remove_first_hash rs) of
                                 None \<Rightarrow>
                                   Some (Inl (Error (''Error while getting pointer '' @ rs
                                                       @ '' in node name '' @ nodeKeyName)))
                               | Some target \<Rightarrow>
                                   convert_node recurse parsingOpts nodeKeyName
                                     (JObj (own_entries target))))
                   | _ \<Rightarrow> Some (Inl (NotModelled ''$ref is not a string'')))))"

section \<open>The class CredentialSchema (src/anonymous-credentials/schema.ts)\<close>

text \<open>
  The class \<open>Encoder\<close> (\<open>bbs-plus/encoder.ts\<close>) is not among the sources. Its static
  factories are modelled as the constructors of \<open>EncodeFunc\<close>, each holding the arguments
  that \<open>initEncoder\<close> passes (\<open>None\<close> is \<open>undefined\<close>); an encoder is the map from names to
  encoding functions and the optional default.
\<close>

datatype EncodeFunc =
    defaultEncodeFunc
  | reversibleEncoderString "json option"
  | positiveIntegerEncoder
  | integerEncoder "json option"
  | positiveDecimalNumberEncoder "json option"
  | decimalNumberEncoder "json option" "json option"

record Encoder =
  encoders :: "(string \<times> EncodeFunc) list"
  defaultEncoder :: "EncodeFunc option"

record CredentialSchema =
  version :: string
  schema :: json
  jsonSchema :: json
  parsingOptions :: ISchemaParsingOpts
  encoder :: Encoder

definition VERSION :: string where
  "VERSION = ''0.0.1''"

text \<open>\<open>Partial<ISchemaParsingOpts>\<close>, and the spread \<open>{...DefaultSchemaParsingOpts, ...parsingOpts}\<close>.\<close>

record PartialParsingOpts =
  p_useDefaults :: "bool option"
  p_defaultMinimumInteger :: "jsnum option"
  p_defaultDecimalPlaces :: "jsnum option"

definition spread_opts :: "ISchemaParsingOpts \<Rightarrow> PartialParsingOpts \<Rightarrow> ISchemaParsingOpts" where
  "spread_opts base over =
     \<lparr>useDefaults = (case p_useDefaults over of None \<Rightarrow> useDefaults base | Some b \<Rightarrow> b),
      defaultMinimumInteger =
        (case p_defaultMinimumInteger over of None \<Rightarrow> defaultMinimumInteger base | Some x \<Rightarrow> x),
      defaultDecimalPlaces =
        (case p_defaultDecimalPlaces over of None \<Rightarrow> defaultDecimalPlaces base | Some x \<Rightarrow> x)\<rparr>"

text \<open>Complete parsing options, passed where partial ones are expected.\<close>

definition as_partial :: "ISchemaParsingOpts \<Rightarrow> PartialParsingOpts" where
  "as_partial opts =
     \<lparr>p_useDefaults = Some (useDefaults opts),
      p_defaultMinimumInteger = Some (defaultMinimumInteger opts),
      p_defaultDecimalPlaces = Some (defaultDecimalPlaces opts)\<rparr>"

definition flatten :: "CredentialSchema \<Rightarrow> string list \<times> json list" where
  "flatten cs = flattenSchemaObj (schema cs)"

definition POSSIBLE_TYPES :: "string list" where
  "POSSIBLE_TYPES =
     [STR_TYPE, STR_REV_TYPE, POSITIVE_INT_TYPE, INT_TYPE, POSITIVE_NUM_TYPE, NUM_TYPE]"

definition IGNORE_GENERIC_VALIDATION :: "string list" where
  "IGNORE_GENERIC_VALIDATION =
     [CRYPTO_VERSION_STR, SCHEMA_STR, STATUS_STR @ ''.'' @ ID_STR,
      STATUS_STR @ ''.'' @ REV_CHECK_STR, STATUS_STR @ ''.'' @ REV_ID_STR]"

text \<open>
  \<open>Number.isInteger\<close> on a field, and \<open>isPositiveInteger\<close>. Modelled from the spec:
  \<open>isPositiveInteger\<close> of \<open>util.ts\<close>, which is not among the sources; the spec gives
  \<open>decimalPlaces\<close> the type \<open>uint\<close>, an integer that is not negative.
\<close>

fun isInteger :: "json option \<Rightarrow> bool" where
  "isInteger (Some (JNum (Dec m e))) = (if 0 \<le> e then True else 10 ^ nat (- e) dvd m)"
| "isInteger v = False"

fun isPositiveInteger :: "json option \<Rightarrow> bool" where
  "isPositiveInteger (Some (JNum x)) = (isInteger (Some (JNum x)) \<and> ge_zero x)"
| "isPositiveInteger v = False"

text \<open>The double quote, for the messages that quote a word.\<close>

definition dq :: string where
  "dq = [CHR 0x22]"

definition validateStringType :: "json \<Rightarrow> string \<Rightarrow> error + unit" where
  "validateStringType sch fieldName =
     (case get_field sch fieldName of
        None \<Rightarrow> Inl (Error (''Schema should contain a top level key '' @ fieldName
                              @ '' and its type must be '' @ dq @ ''string'' @ dq))
      | Some f \<Rightarrow>
          if \<not> truthy f \<or> get_field f ''type'' \<noteq> Some (JStr ''string'')
          then Inl (Error (''Schema should contain a top level key '' @ fieldName
                               @ '' and its type must be '' @ dq @ ''string'' @ dq))
          else Inr ())"

text \<open>The checks of \<open>validateGeneric\<close> on one name and its value.\<close>

definition validate_leaf :: "string list \<Rightarrow> string \<Rightarrow> json \<Rightarrow> error + unit" where
  "validate_leaf ignoreKeys name v =
     (if name \<in> set ignoreKeys then Inr ()
      else
        (case get_field v ''type'' of
           None \<Rightarrow> Inl (Error (''Schema value for '' @ name @ '' should have a '' @ dq @ ''type'' @ dq @ '' field''))
         | Some (JStr typ) \<Rightarrow>
             if typ \<notin> set POSSIBLE_TYPES
             then Inl (Error (''Schema value for '' @ name @ '' had an unknown '' @ dq @ ''type'' @ dq @ '' field ''
                                @ typ))
             else if typ = STR_REV_TYPE then
               (case get_field v ''compress'' of
                  Some (JBool b) \<Rightarrow> Inr ()
                | _ \<Rightarrow> Inl (Error (''Schema value for '' @ name @ '' expected boolean'')))
             else if typ = INT_TYPE then
               (if \<not> isInteger (get_field v ''minimum'')
                then Inl (Error (''Schema value for '' @ name @ '' expected integer''))
                else Inr ())
             else if typ = POSITIVE_NUM_TYPE then
               (if \<not> isPositiveInteger (get_field v ''decimalPlaces'')
                then Inl (Error (''Schema value for '' @ name
                                   @ '' expected maximum decimal places as a positive integer''))
                else Inr ())
             else if typ = NUM_TYPE then
               (if \<not> isInteger (get_field v ''minimum'')
                     \<or> \<not> isPositiveInteger (get_field v ''decimalPlaces'')
                then Inl (Error (''Schema value for '' @ name
                                   @ '' expected an integer as a minimum values and maximum decimal places as a positive integer''))
                else Inr ())
             else Inr ()
         | Some _ \<Rightarrow>
             Inl (Error (''Schema value for '' @ name @ '' had an unknown '' @ dq @ ''type'' @ dq @ '' field''))))"

text \<open>A loop over a list that ends at the first exception.\<close>

fun first_error :: "('a \<Rightarrow> error + unit) \<Rightarrow> 'a list \<Rightarrow> error + unit" where
  "first_error f [] = Inr ()"
| "first_error f (x # xs) = (case f x of Inl err \<Rightarrow> Inl err | Inr _ \<Rightarrow> first_error f xs)"

definition validateGeneric :: "json \<Rightarrow> string list \<Rightarrow> error + unit" where
  "validateGeneric sch ignoreKeys =
     (case flattenSchemaObj sch of
        (names, vals) \<Rightarrow> first_error (\<lambda>(n, v). validate_leaf ignoreKeys n v) (zip names vals))"

definition validate :: "json \<Rightarrow> error + unit" where
  "validate sch =
     (if get_field sch SUBJECT_STR = None
      then Inl (Error (''Schema properties did not contain top level key '' @ SUBJECT_STR))
      else
        (case (case get_field sch STATUS_STR of
                 None \<Rightarrow> Inr ()
               | Some schemaStatus \<Rightarrow>
                   first_error (validateStringType schemaStatus)
                     [TYPE_STR, ID_STR, REV_CHECK_STR, REV_ID_STR]) of
           Inl err \<Rightarrow> Inl err
         | Inr _ \<Rightarrow> validateGeneric sch IGNORE_GENERIC_VALIDATION))"

text \<open>\<open>initEncoder\<close>: one encoding function per flattened name, by the type of its value.\<close>

definition encoder_for :: "json \<Rightarrow> EncodeFunc" where
  "encoder_for v =
     (case get_field v ''type'' of
        Some (JStr typ) \<Rightarrow>
          if typ = STR_REV_TYPE then reversibleEncoderString (get_field v ''compress'')
          else if typ = POSITIVE_INT_TYPE then positiveIntegerEncoder
          else if typ = INT_TYPE then integerEncoder (get_field v ''minimum'')
          else if typ = POSITIVE_NUM_TYPE
            then positiveDecimalNumberEncoder (get_field v ''decimalPlaces'')
          else if typ = NUM_TYPE
            then decimalNumberEncoder (get_field v ''minimum'') (get_field v ''decimalPlaces'')
          else defaultEncodeFunc
      | _ \<Rightarrow> defaultEncodeFunc)"

definition initEncoder :: "json \<Rightarrow> ISchemaParsingOpts \<Rightarrow> Encoder" where
  "initEncoder sch opts =
     (case flattenSchemaObj sch of
        (names, vals) \<Rightarrow>
          \<lparr>encoders =
             upsert SCHEMA_STR defaultEncodeFunc
               (upsert CRYPTO_VERSION_STR defaultEncodeFunc
                  (assign_all (zip names (map encoder_for vals)) [])),
           defaultEncoder = (if useDefaults opts then Some defaultEncodeFunc else None)\<rparr>)"

text \<open>
  The constructor. With no parsing options given, the default parameter value
  \<open>DefaultSchemaParsingOpts\<close> is spread over itself.
\<close>

definition new_CredentialSchema ::
  "(json \<Rightarrow> string \<Rightarrow> json option) \<Rightarrow> nat \<Rightarrow> json \<Rightarrow> PartialParsingOpts option
     \<Rightarrow> (error + CredentialSchema) option" where
  "new_CredentialSchema pointer_get fuel jsonSch parsingOpts =
     (let pOpts = spread_opts DefaultSchemaParsingOpts
                    (case parsingOpts of
                       None \<Rightarrow> as_partial DefaultSchemaParsingOpts
                     | Some po \<Rightarrow> po)
      in case convertToInternalSchemaObj pointer_get fuel jsonSch pOpts [] None of
           None \<Rightarrow> None
         | Some (Inl err) \<Rightarrow> Some (Inl err)
         | Some (Inr sch) \<Rightarrow>
             (case validate sch of
                Inl err \<Rightarrow> Some (Inl err)
              | Inr _ \<Rightarrow>
                  Some (Inr \<lparr>version = VERSION, schema = sch, jsonSchema = jsonSch,
                             parsingOptions = pOpts, encoder = initEncoder sch pOpts\<rparr>)))"

section \<open>A schema to and from JSON (src/anonymous-credentials/schema.ts)\<close>

text \<open>
  \<open>encodeURIComponent\<close> and \<open>decodeURIComponent\<close> of JavaScript, on strings as UTF-8 bytes:
  every byte but the unreserved characters becomes \<open>%XX\<close>, and back. Decoding throws a
  \<open>URIError\<close> on a \<open>%\<close> that two hexadecimal digits do not follow (that the decoded bytes
  are UTF-8 is not checked here: they come from a string).
\<close>

definition unreserved :: "char \<Rightarrow> bool" where
  "unreserved c =
     (c \<in> set ''ABCDEFGHIJKLMNOPQRSTUVWXYZabcdefghijklmnopqrstuvwxyz0123456789-_.!~*()''
      \<or> c = CHR 0x27)"

definition hex_digit :: "nat \<Rightarrow> char" where
  "hex_digit n = ''0123456789ABCDEF'' ! (n mod 16)"

definition hex_value :: "char \<Rightarrow> nat option" where
  "hex_value c = map_of (zip ''0123456789ABCDEFabcdef''
                           [0, 1, 2, 3, 4, 5, 6, 7, 8, 9, 10, 11, 12, 13, 14, 15,
                            10, 11, 12, 13, 14, 15]) c"

fun encodeURIComponent :: "string \<Rightarrow> string" where
  "encodeURIComponent [] = []"
| "encodeURIComponent (c # cs) =
     (if unreserved c then c # encodeURIComponent cs
      else CHR ''%'' # hex_digit (of_char c div 16) # hex_digit (of_char c mod 16)
             # encodeURIComponent cs)"

fun decodeURIComponent :: "string \<Rightarrow> error + string" where
  "decodeURIComponent [] = Inr []"
| "decodeURIComponent (c # cs) =
     (if c = CHR ''%'' then
        (case cs of
           h # l # rest \<Rightarrow>
             (case (hex_value h, hex_value l) of
                (Some hi, Some lo) \<Rightarrow>
                  (case decodeURIComponent rest of
                     Inl err \<Rightarrow> Inl err
                   | Inr r \<Rightarrow> Inr (char_of (16 * hi + lo) # r))
              | _ \<Rightarrow> Inl (Error ''URIError: URI malformed''))
         | _ \<Rightarrow> Inl (Error ''URIError: URI malformed''))
      else (case decodeURIComponent cs of Inl err \<Rightarrow> Inl err | Inr r \<Rightarrow> Inr (c # r)))"

text \<open>
  The object that \<open>toJSON\<close> returns and \<open>fromJSON\<close> takes apart. \<open>JSON.stringify\<close> and
  \<open>JSON.parse\<close> are parameters of the model (\<open>parse\<close> is \<open>None\<close> where it throws).
\<close>

record SchemaJSON =
  j_id :: string
  j_type :: string
  j_parsingOptions :: "PartialParsingOpts option"
  j_version :: string

definition toJSON :: "(json \<Rightarrow> string) \<Rightarrow> CredentialSchema \<Rightarrow> SchemaJSON" where
  "toJSON stringify cs =
     \<lparr>j_id = ''data:application/json;,'' @ encodeURIComponent (stringify (jsonSchema cs)),
      j_type = SCHEMA_TYPE_STR,
      j_parsingOptions = Some (as_partial (parsingOptions cs)),
      j_version = version cs\<rparr>"

text \<open>\<open>embedded.replace(/\r?\n/g, '')\<close>, \<open>indexOf\<close> and \<open>split\<close>.\<close>

fun strip_newlines :: "string \<Rightarrow> string" where
  "strip_newlines [] = []"
| "strip_newlines [c] = (if c = CHR 0x0A then [] else [c])"
| "strip_newlines (c # d # cs) =
     (if c = CHR 0x0A then strip_newlines (d # cs)
      else if c = CHR 0x0D \<and> d = CHR 0x0A then strip_newlines cs
      else c # strip_newlines (d # cs))"

fun index_from :: "int \<Rightarrow> 'a list \<Rightarrow> 'a \<Rightarrow> int" where
  "index_from i [] x = - 1"
| "index_from i (y # ys) x = (if y = x then i else index_from (i + 1) ys x)"

definition indexOf :: "'a list \<Rightarrow> 'a \<Rightarrow> int" where
  "indexOf xs x = index_from 0 xs x"

fun split_on :: "char \<Rightarrow> string \<Rightarrow> string list" where
  "split_on sep [] = [[]]"
| "split_on sep (c # cs) =
     (if c = sep then [] # split_on sep cs
      else (case split_on sep cs of [] \<Rightarrow> [[c]] | p # ps \<Rightarrow> (c # p) # ps))"

definition extractJsonSchemaFromEmbedded :: "(string \<Rightarrow> json option) \<Rightarrow> string \<Rightarrow> error + json" where
  "extractJsonSchemaFromEmbedded parse embedded =
     (if take 5 embedded \<noteq> ''data:'' then Inl (Error ''Embedded schema must be a data URI'')
      else
        (let dataUri = strip_newlines embedded;
             firstComma = indexOf dataUri CHR '',''
         in if firstComma = - 1 then Inl (Error ''Schema is a malformed data URI'')
            else
              (let meta = split_on CHR '';'' (drop 5 (take (nat firstComma) dataUri))
               in if hd meta \<noteq> ''application/json''
                  then Inl (Error (''Expected media type application/json but was '' @ hd meta))
                  else if ''base64'' \<in> set meta
                  then Inl (Error ''Base64 embedded JSON is not yet supported'')
                  else
                    (case decodeURIComponent (drop (nat (firstComma + 1)) dataUri) of
                       Inl err \<Rightarrow> Inl err
                     | Inr dataStr \<Rightarrow>
                         (case parse dataStr of
                            None \<Rightarrow> Inl (Error ''SyntaxError: JSON.parse'')
                          | Some j \<Rightarrow> Inr j)))))"

definition fromJSON ::
  "(json \<Rightarrow> string \<Rightarrow> json option) \<Rightarrow> nat \<Rightarrow> (string \<Rightarrow> json option) \<Rightarrow> SchemaJSON
     \<Rightarrow> (error + CredentialSchema) option" where
  "fromJSON pointer_get fuel parse j =
     (if j_type j \<noteq> SCHEMA_TYPE_STR
      then Some (Inl (Error (''Schema type was '' @ dq @ j_type j @ dq @ '', expected: '' @ dq
                               @ SCHEMA_TYPE_STR @ dq)))
      else
        (case extractJsonSchemaFromEmbedded parse (j_id j) of
           Inl err \<Rightarrow> Some (Inl err)
         | Inr jsonSch \<Rightarrow>
             (case new_CredentialSchema pointer_get fuel jsonSch (j_parsingOptions j) of
                None \<Rightarrow> None
              | Some (Inl err) \<Rightarrow> Some (Inl err)
              | Some (Inr credSchema) \<Rightarrow> Some (Inr (credSchema\<lparr>version := j_version j\<rparr>)))))"

text \<open>A character that is no comma, line feed or percent sign.\<close>

definition plain_char :: "char \<Rightarrow> bool" where
  "plain_char c = (c \<noteq> CHR '','' \<and> c \<noteq> CHR 0x0A \<and> c \<noteq> CHR ''%'')"

text \<open>
  For the examples: a JSON schema with a string and a number, the credential schema that
  the constructor makes of it, a serialiser of JSON values (strings without escapes), and
  a parser that knows the text of this one schema.
\<close>

definition demo_json_schema :: json where
  "demo_json_schema =
     JObj [(''$schema'', JStr ''http://json-schema.org/draft-07/schema#''),
           (''type'', JStr ''object''),
           (''properties'',
              JObj [(''credentialSubject'',
                       JObj [(''type'', JStr ''object''),
                             (''properties'',
                                JObj [(''fname'', JObj [(''type'', JStr ''string'')]),
                                      (''score'',
                                         JObj [(''type'', JStr ''number''),
                                               (''minimum'', JNum (Dec (- 1) 2)),
                                               (''multipleOf'', JNum (Dec 1 (- 1)))])])])])]"

definition demo_schema :: CredentialSchema where
  "demo_schema =
     \<lparr>version = ''0.0.1'',
      schema =
        JObj [(''credentialSubject'',
                 JObj [(''fname'', JObj [(''type'', JStr ''string'')]),
                       (''score'',
                          JObj [(''type'', JStr ''decimalNumber''),
                                (''minimum'', JNum (Dec (- 1) 2)),
                                (''decimalPlaces'', JNum (Dec 1 0))])])],
      jsonSchema = demo_json_schema,
      parsingOptions = DefaultSchemaParsingOpts,
      encoder =
        \<lparr>encoders =
           [(''credentialSchema'', defaultEncodeFunc),
            (''credentialSubject.fname'', defaultEncodeFunc),
            (''credentialSubject.score'',
               decimalNumberEncoder (Some (JNum (Dec (- 1) 2))) (Some (JNum (Dec 1 0)))),
            (''cryptoVersion'', defaultEncodeFunc)],
         defaultEncoder = None\<rparr>\<rparr>"

fun demo_stringify :: "json \<Rightarrow> string"
  and stringify_items :: "json list \<Rightarrow> string"
  and stringify_fields :: "(string \<times> json) list \<Rightarrow> string" where
  "demo_stringify JNull = ''null''"
| "demo_stringify (JBool b) = (if b then ''true'' else ''false'')"
| "demo_stringify (JNum x) = js_toString x"
| "demo_stringify (JStr str) = dq @ str @ dq"
| "demo_stringify (JArr xs) = ''['' @ stringify_items xs @ '']''"
| "demo_stringify (JObj kvs) = ''{'' @ stringify_fields kvs @ ''}''"
| "stringify_items [] = []"
| "stringify_items [x] = demo_stringify x"
| "stringify_items (x # y # xs) = demo_stringify x @ '','' @ stringify_items (y # xs)"
| "stringify_fields [] = []"
| "stringify_fields [(k, v)] = dq @ k @ dq @ '':'' @ demo_stringify v"
| "stringify_fields ((k, v) # kv # kvs) =
     dq @ k @ dq @ '':'' @ demo_stringify v @ '','' @ stringify_fields (kv # kvs)"

definition demo_parse :: "string \<Rightarrow> json option" where
  "demo_parse str =
     (if str = demo_stringify demo_json_schema then Some demo_json_schema else None)"

section \<open>Signature parameters (the class PSSignatureParams)\<close>

text \<open>
  \<open>finalize\<close> builds its parameters with \<open>SignatureParamsG1\<close> of \<open>bbs-plus\<close>, which is not
  among the sources; \<open>PSSignatureParams\<close>, which is, has the same \<open>generate\<close>, \<open>adapt\<close> and
  \<open>supportedMessageCount\<close> and is modelled in its place.
\<close>

record PSSigParams =
  sig_g :: bytes
  sig_g_tilde :: bytes
  sig_h :: "bytes list"

record PSSignatureParams =
  label :: "bytes option"
  params_value :: PSSigParams

definition supportedMessageCount :: "PSSignatureParams \<Rightarrow> nat" where
  "supportedMessageCount p = length (sig_h (params_value p))"

section \<open>Statements, witnesses and the WASM back end\<close>

datatype AccumulatorWitness = MembershipWitness bytes | NonMembershipWitness bytes

datatype AccumSetup =
  dockAccumulatorParams | dockAccumulatorMemProvingKey | dockAccumulatorNonMemProvingKey

text \<open>
  Statements, witnesses and meta-statements, each standing for the bytes that the WASM
  constructor makes of the same arguments. A witness-equality lists its references
  (statement index, position) in the order \<open>addWitnessRef\<close> adds them.
\<close>

datatype Statement =
    StatementBbsSignature PSSignatureParams bytes "(nat \<times> bytes) list" bool
  | StatementAccumulatorMembership AccumSetup bytes AccumSetup bytes
  | StatementAccumulatorNonMembership AccumSetup bytes AccumSetup bytes

datatype Witness =
    WitnessBbsSignature bytes "(nat \<times> bytes) list" bool
  | WitnessAccumulatorMembership bytes AccumulatorWitness
  | WitnessAccumulatorNonMembership bytes AccumulatorWitness

datatype MetaStatement = WitnessEquality "(int \<times> int) list"

text \<open>
  \<open>Externals\<close> collects what the builder takes from outside the sources: the two WASM
  functions on signature parameters, \<open>Encoder.encodeMessage\<close> (\<open>None\<close> where it throws), the
  label bytes \<open>SIGNATURE_PARAMS_LABEL_BYTES\<close>, and
  \<open>CompositeProofG1.generateUsingQuasiProofSpec\<close>, which takes the proof specification
  \<open>new QuasiProofSpecG1(statements, metaStatements, [], context)\<close> (here its statements,
  meta-statements and context), the witnesses and the nonce, and returns the proof or
  throws (\<open>Inl\<close> the message of the exception).
\<close>

record Externals =
  psGenerateSignatureParams :: "nat \<Rightarrow> bytes option \<Rightarrow> PSSigParams"
  psAdaptSignatureParamsForMsgCount :: "PSSigParams \<Rightarrow> bytes \<Rightarrow> nat \<Rightarrow> PSSigParams"
  encodeMessage :: "Encoder \<Rightarrow> string \<Rightarrow> string \<Rightarrow> bytes option"
  generateUsingQuasiProofSpec ::
    "Statement list \<Rightarrow> MetaStatement list \<Rightarrow> bytes option \<Rightarrow> Witness list \<Rightarrow> bytes option
       \<Rightarrow> string + bytes"
  SIGNATURE_PARAMS_LABEL_BYTES :: bytes

definition generate :: "Externals \<Rightarrow> nat \<Rightarrow> bytes option \<Rightarrow> PSSignatureParams" where
  "generate ext numMessages lbl =
     \<lparr>label = lbl, params_value = psGenerateSignatureParams ext numMessages lbl\<rparr>"

text \<open>\<open>adapt\<close> returns new parameters; the parameters it is called on stay as they are.\<close>

definition adapt :: "Externals \<Rightarrow> PSSignatureParams \<Rightarrow> nat \<Rightarrow> error + PSSignatureParams" where
  "adapt ext p newMsgCount =
     (case label p of
        None \<Rightarrow> Inl (Error ''Label should be present'')
      | Some lbl \<Rightarrow>
          (let newParams =
                 (if newMsgCount \<le> supportedMessageCount p
                  then \<lparr>sig_g = sig_g (params_value p),
                        sig_g_tilde = sig_g_tilde (params_value p),
                        sig_h = take newMsgCount (sig_h (params_value p))\<rparr>
                  else psAdaptSignatureParamsForMsgCount ext (params_value p) lbl newMsgCount)
           in Inr \<lparr>label = Some lbl, params_value = newParams\<rparr>))"

section \<open>The presentation builder (src/anonymous-credentials/presentation-builder.ts)\<close>

text \<open>
  Modelled from the spec: the constants \<open>CRED_VERSION_STR\<close>, \<open>REGISTRY_ID_STR\<close> and
  \<open>MEM_CHECK_STR\<close> of \<open>types-and-consts.ts\<close>. The spec has the builder always reveal
  \<open>cryptoVersion\<close>, the embedded schema and, with a status, \<open>status.id\<close> and
  \<open>status.revocationCheck\<close>; the check of a status is \<open>membership\<close> or not.
\<close>

definition CRED_VERSION_STR :: string where "CRED_VERSION_STR = ''cryptoVersion''"
definition REGISTRY_ID_STR :: string where "REGISTRY_ID_STR = ''id''"
definition MEM_CHECK_STR :: string where "MEM_CHECK_STR = ''membership''"

text \<open>
  Modelled from the spec: the class \<open>Credential\<close> (\<open>credential.ts\<close>), as far as \<open>finalize\<close>
  reads it. A credential has its schema, an optional status with the fields \<open>id\<close>,
  \<open>revocationCheck\<close> and \<open>revocationId\<close>, a signature, the issuer's key, and its attribute
  vector: the scalars that flattening the credential and encoding each leaf produce, at
  the positions of the flattened schema (\<open>serializeForSigning\<close> and the schema's encoder
  produce it).
\<close>

record CredStatus =
  registryId :: string
  revocationCheck :: string
  revocationId :: string

record Credential =
  cred_schema :: CredentialSchema
  credStatus :: "CredStatus option"
  signature :: bytes
  issuerPubKey :: string
  attributeVector :: "bytes list"

text \<open>
  The builder. A credential index is a JavaScript number: any integer can be passed. The
  sets of revealed names are lists without repetition in insertion order. The field
  \<open>spec\<close>, the presentation specification that \<open>finalize\<close> fills next to the statements,
  is left out; the proof is part of what \<open>finalize\<close> returns.
\<close>

record PresentationBuilder =
  credentials :: "(Credential \<times> bytes) list"
  revealedAttributes :: "(int \<times> string list) list"
  attributeEqualities :: "(int \<times> string) list list"
  credStatuses :: "(int \<times> AccumulatorWitness \<times> bytes \<times> bytes \<times> json) list"
  builder_context :: "bytes option"
  builder_nonce :: "bytes option"

definition new_PresentationBuilder :: PresentationBuilder where
  "new_PresentationBuilder =
     \<lparr>credentials = [], revealedAttributes = [], attributeEqualities = [],
      credStatuses = [], builder_context = None, builder_nonce = None\<rparr>"

definition addCredential ::
  "PresentationBuilder \<Rightarrow> Credential \<Rightarrow> bytes \<Rightarrow> PresentationBuilder \<times> nat" where
  "addCredential b credential pk =
     (b\<lparr>credentials := credentials b @ [(credential, pk)]\<rparr>, length (credentials b))"

definition show_int :: "int \<Rightarrow> string" where
  "show_int i = (if i < 0 then ''-'' @ show_nat (nat (- i)) else show_nat (nat i))"

definition validateCredIndex :: "PresentationBuilder \<Rightarrow> int \<Rightarrow> error + unit" where
  "validateCredIndex b credIdx =
     (if credIdx \<ge> int (length (credentials b))
      then Inl (Error (''Invalid credential index '' @ show_int credIdx
                         @ ''. Number of credentials is '' @ show_nat (length (credentials b))))
      else Inr ())"

text \<open>\<open>Set.prototype.add\<close>.\<close>

definition set_add :: "'a \<Rightarrow> 'a list \<Rightarrow> 'a list" where
  "set_add x xs = (if x \<in> set xs then xs else xs @ [x])"

definition markAttributesRevealed ::
  "PresentationBuilder \<Rightarrow> int \<Rightarrow> string list \<Rightarrow> error + PresentationBuilder" where
  "markAttributesRevealed b credIdx attributeNames =
     (case validateCredIndex b credIdx of
        Inl err \<Rightarrow> Inl err
      | Inr _ \<Rightarrow>
          (let revealed = (case map_of (revealedAttributes b) credIdx of
                             None \<Rightarrow> [] | Some r \<Rightarrow> r);
               revealed' = fold (\<lambda>a r. set_add (SUBJECT_STR @ ''.'' @ a) r) attributeNames revealed
           in Inr (b\<lparr>revealedAttributes := upsert credIdx revealed' (revealedAttributes b)\<rparr>)))"

definition markAttributesEqual ::
  "PresentationBuilder \<Rightarrow> (int \<times> string) list \<Rightarrow> error + PresentationBuilder" where
  "markAttributesEqual b equality =
     (case first_error (\<lambda>aRef. validateCredIndex b (fst aRef)) equality of
        Inl err \<Rightarrow> Inl err
      | Inr _ \<Rightarrow> Inr (b\<lparr>attributeEqualities := attributeEqualities b @ [equality]\<rparr>))"

definition addAccumInfoForCredStatus ::
  "PresentationBuilder \<Rightarrow> int \<Rightarrow> AccumulatorWitness \<Rightarrow> bytes \<Rightarrow> bytes \<Rightarrow> json
     \<Rightarrow> error + PresentationBuilder" where
  "addAccumInfoForCredStatus b credIdx accumWitness accumulated accumPublicKey extra =
     (case validateCredIndex b credIdx of
        Inl err \<Rightarrow> Inl err
      | Inr _ \<Rightarrow>
          Inr (b\<lparr>credStatuses :=
                   upsert credIdx (accumWitness, accumulated, accumPublicKey, extra)
                     (credStatuses b)\<rparr>))"

text \<open>
  Modelled from the spec: \<open>getRevealedAndUnrevealed\<close> of \<open>sign-verify-js-objs.ts\<close>, which
  is not among the sources. The spec: the attributes are split into
  \<open>revealedMsgs : position \<rightarrow> scalar\<close> and \<open>unrevealedMsgs : position \<rightarrow> scalar\<close> per the
  flattened schema; a position is revealed when its name is in the set of revealed names.
  An attribute referenced by name that does not exist in the flattened schema is an
  error (the spec's error handling).
\<close>

definition split_positions ::
  "string list \<Rightarrow> bytes list \<Rightarrow> string list \<Rightarrow> (nat \<times> bytes) list \<times> (nat \<times> bytes) list" where
  "split_positions names msgs revealedNames =
     (let positions = zip [0..<length names] (zip names msgs)
      in (map (\<lambda>(i, n, m). (i, m)) (filter (\<lambda>(i, n, m). n \<in> set revealedNames) positions),
          map (\<lambda>(i, n, m). (i, m)) (filter (\<lambda>(i, n, m). n \<notin> set revealedNames) positions)))"

definition getRevealedAndUnrevealed ::
  "string list \<Rightarrow> bytes list \<Rightarrow> string list
     \<Rightarrow> error + (nat \<times> bytes) list \<times> (nat \<times> bytes) list" where
  "getRevealedAndUnrevealed names msgs revealedNames =
     (if list_all (\<lambda>n. n \<in> set names) revealedNames
      then Inr (split_positions names msgs revealedNames)
      else Inl (Error ''Some of the revealed attribute names were not found''))"

text \<open>\<open>xs[i]\<close> for a JavaScript number \<open>i\<close>: \<open>None\<close> is \<open>undefined\<close>.\<close>

definition nth_opt :: "'a list \<Rightarrow> int \<Rightarrow> 'a option" where
  "nth_opt xs i = (if 0 \<le> i \<and> i < int (length xs) then Some (xs ! nat i) else None)"

text \<open>A loop with a state that ends at the first exception.\<close>

fun fold_err :: "('a \<Rightarrow> 's \<Rightarrow> error + 's) \<Rightarrow> 'a list \<Rightarrow> 's \<Rightarrow> error + 's" where
  "fold_err f [] st = Inr st"
| "fold_err f (x # xs) st = (case f x st of Inl err \<Rightarrow> Inl err | Inr st' \<Rightarrow> fold_err f xs st')"

text \<open>
  The local variables of \<open>finalize\<close> that its first loop updates, with the builder's map
  of revealed names: the loop adds names to the sets that the map holds.
\<close>

record FinalizeState =
  fs_maxAttribs :: nat
  fs_sigParams :: PSSignatureParams
  fs_statements :: "Statement list"
  fs_witnesses :: "Witness list"
  fs_flattenedSchemas :: "(string list \<times> json list) list"
  fs_credStatusAux :: "(nat \<times> string \<times> bytes) list"
  fs_revealedAttributes :: "(int \<times> string list) list"

text \<open>The names that are always revealed, added to the names marked for credential \<open>i\<close>.\<close>

definition always_revealed :: "Credential \<Rightarrow> string list \<Rightarrow> string list" where
  "always_revealed cred revealedNames =
     (let r1 = set_add SCHEMA_STR (set_add CRED_VERSION_STR revealedNames)
      in if credStatus cred \<noteq> None
         then set_add (STATUS_STR @ ''.'' @ REV_CHECK_STR)
                (set_add (STATUS_STR @ ''.'' @ REGISTRY_ID_STR) r1)
         else r1)"

text \<open>One round of the first loop of \<open>finalize\<close>, for credential \<open>i\<close>.\<close>

definition cred_step ::
  "Externals \<Rightarrow> PresentationBuilder \<Rightarrow> nat \<times> Credential \<times> bytes \<Rightarrow> FinalizeState
     \<Rightarrow> error + FinalizeState" where
  "cred_step ext b = (\<lambda>(i, cred, pk) st.
     (let flattenedSchema = flatten (cred_schema cred);
          numAttribs = length (fst flattenedSchema)
      in case (if fs_maxAttribs st < numAttribs
               then map_sum id (\<lambda>discarded. numAttribs) (adapt ext (fs_sigParams st) numAttribs)
               else Inr (fs_maxAttribs st)) of
           Inl err \<Rightarrow> Inl err
         | Inr maxAttribs \<Rightarrow>
             (let stored = map_of (fs_revealedAttributes st) (int i);
                  revealedNames =
                    always_revealed cred (case stored of None \<Rightarrow> [] | Some r \<Rightarrow> r);
                  revealedAttrs =
                    (case stored of
                       None \<Rightarrow> fs_revealedAttributes st
                     | Some r \<Rightarrow> upsert (int i) revealedNames (fs_revealedAttributes st))
              in case getRevealedAndUnrevealed (fst flattenedSchema) (attributeVector cred)
                        revealedNames of
                   Inl err \<Rightarrow> Inl err
                 | Inr (revealedMsgs, unrevealedMsgs) \<Rightarrow>
                     (case adapt ext (fs_sigParams st) numAttribs of
                        Inl err \<Rightarrow> Inl err
                      | Inr adapted \<Rightarrow>
                          (let statement = StatementBbsSignature adapted pk revealedMsgs False;
                               witness =
                                 WitnessBbsSignature (signature cred) unrevealedMsgs False;
                               st' = st\<lparr>fs_maxAttribs := maxAttribs,
                                        fs_statements := fs_statements st @ [statement],
                                        fs_witnesses := fs_witnesses st @ [witness],
                                        fs_revealedAttributes := revealedAttrs\<rparr>
                           in case (case credStatus cred of
                                      None \<Rightarrow> Inr (fs_credStatusAux st)
                                    | Some status \<Rightarrow>
                                        (case map_of (credStatuses b) (int i) of
                                           None \<Rightarrow>
                                             Inl (Error (''No status details found for credential index ''
                                                           @ show_nat i))
                                         | Some sd \<Rightarrow>
                                             (case encodeMessage ext (encoder (cred_schema cred))
                                                     (STATUS_STR @ ''.'' @ REV_ID_STR)
                                                     (revocationId status) of
                                                None \<Rightarrow> Inl (Error ''encodeMessage'')
                                              | Some encoded \<Rightarrow>
                                                  Inr (fs_credStatusAux st
                                                         @ [(i, revocationCheck status, encoded)])))) of
                                Inl err \<Rightarrow> Inl err
                              | Inr aux \<Rightarrow>
                                  Inr (st'\<lparr>fs_credStatusAux := aux,
                                           fs_flattenedSchemas :=
                                             fs_flattenedSchemas st @ [flattenedSchema]\<rparr>))))))"

text \<open>One round of \<open>credStatusAux.forEach\<close>.\<close>

definition status_step ::
  "PresentationBuilder \<Rightarrow> (string list \<times> json list) list \<Rightarrow> nat \<times> string \<times> bytes
     \<Rightarrow> Statement list \<times> Witness list \<times> MetaStatement list
     \<Rightarrow> error + Statement list \<times> Witness list \<times> MetaStatement list" where
  "status_step b flattenedSchemas = (\<lambda>(i, t, encoded) (sts, wits, metas).
     (case map_of (credStatuses b) (int i) of
        None \<Rightarrow> Inl (Error (''No status details found for credential index '' @ show_nat i))
      | Some (wit, acc, pk, extra) \<Rightarrow>
          (case (if t = MEM_CHECK_STR then
                   (case wit of
                      MembershipWitness w \<Rightarrow>
                        Inr (StatementAccumulatorMembership dockAccumulatorParams pk
                               dockAccumulatorMemProvingKey acc,
                             WitnessAccumulatorMembership encoded wit)
                    | NonMembershipWitness w \<Rightarrow>
                        Inl (Error (''Expected membership witness but got non-membership witness for credential index ''
                                      @ show_nat i)))
                 else
                   (case wit of
                      NonMembershipWitness w \<Rightarrow>
                        Inr (StatementAccumulatorNonMembership dockAccumulatorParams pk
                               dockAccumulatorNonMemProvingKey acc,
                             WitnessAccumulatorNonMembership encoded wit)
                    | MembershipWitness w \<Rightarrow>
                        Inl (Error (''Expected non-membership witness but got membership witness for credential index ''
                                      @ show_nat i)))) of
             Inl err \<Rightarrow> Inl err
           | Inr (statement, witness) \<Rightarrow>
               (case nth_opt flattenedSchemas (int i) of
                  None \<Rightarrow> Inl (Error ''TypeError: Cannot read properties of undefined'')
                | Some fl \<Rightarrow>
                    (let sIdx = length sts;
                         witnessEq =
                           WitnessEquality
                             [(int i, indexOf (fst fl) (STATUS_STR @ ''.'' @ REV_ID_STR)),
                              (int sIdx, 0)]
                     in Inr (sts @ [statement], wits @ [witness], metas @ [witnessEq]))))))"

text \<open>One round of the loop over \<open>attributeEqualities\<close>, and its inner loop.\<close>

definition resolve_ref ::
  "(string list \<times> json list) list \<Rightarrow> int \<times> string \<Rightarrow> (int \<times> int) list
     \<Rightarrow> error + (int \<times> int) list" where
  "resolve_ref flattenedSchemas = (\<lambda>(cIdx, name) refs.
     (case nth_opt flattenedSchemas cIdx of
        None \<Rightarrow> Inl (Error ''TypeError: Cannot read properties of undefined'')
      | Some fl \<Rightarrow>
          (let i = indexOf (fst fl) (SUBJECT_STR @ ''.'' @ name)
           in if i = - 1 then Inl (Error (''Attribute name '' @ name @ '' was not found''))
              else Inr (refs @ [(cIdx, i)]))))"

definition equality_step ::
  "(string list \<times> json list) list \<Rightarrow> (int \<times> string) list \<Rightarrow> MetaStatement list
     \<Rightarrow> error + MetaStatement list" where
  "equality_step flattenedSchemas eql metas =
     (case fold_err (resolve_ref flattenedSchemas) eql [] of
        Inl err \<Rightarrow> Inl err
      | Inr refs \<Rightarrow> Inr (metas @ [WitnessEquality refs]))"

text \<open>
  What \<open>finalize\<close> hands to \<open>QuasiProofSpecG1\<close> and to the proof generation, with the local
  signature parameters and \<open>maxAttribs\<close> as the loop leaves them, the proof that the
  presentation returned holds (its context and nonce are the builder's), and the builder
  with its sets of revealed names as the loop leaves them.
\<close>

record Finalized =
  out_statements :: "Statement list"
  out_metaStatements :: "MetaStatement list"
  out_witnesses :: "Witness list"
  out_sigParams :: PSSignatureParams
  out_maxAttribs :: nat
  out_proof :: bytes
  out_builder :: PresentationBuilder

definition finalize :: "Externals \<Rightarrow> PresentationBuilder \<Rightarrow> error + Finalized" where
  "finalize ext b =
     (let st0 = \<lparr>fs_maxAttribs = 2,
                 fs_sigParams = generate ext 2 (Some (SIGNATURE_PARAMS_LABEL_BYTES ext)),
                 fs_statements = [], fs_witnesses = [], fs_flattenedSchemas = [],
                 fs_credStatusAux = [], fs_revealedAttributes = revealedAttributes b\<rparr>
      in case fold_err (cred_step ext b) (enumerate 0 (credentials b)) st0 of
           Inl err \<Rightarrow> Inl err
         | Inr st \<Rightarrow>
             (case fold_err (status_step b (fs_flattenedSchemas st)) (fs_credStatusAux st)
                     (fs_statements st, fs_witnesses st, []) of
                Inl err \<Rightarrow> Inl err
              | Inr (sts, wits, metas) \<Rightarrow>
                  (case fold_err (equality_step (fs_flattenedSchemas st))
                          (attributeEqualities b) metas of
                     Inl err \<Rightarrow> Inl err
                   | Inr metas' \<Rightarrow>
                       (case generateUsingQuasiProofSpec ext sts metas' (builder_context b)
                               wits (builder_nonce b) of
                          Inl msg \<Rightarrow> Inl (Error msg)
                        | Inr generated \<Rightarrow>
                            Inr \<lparr>out_statements = sts, out_metaStatements = metas',
                                 out_witnesses = wits, out_sigParams = fs_sigParams st,
                                 out_maxAttribs = fs_maxAttribs st, out_proof = generated,
                                 out_builder =
                                   b\<lparr>revealedAttributes := fs_revealedAttributes st\<rparr>\<rparr>))))"

text \<open>
  Notions for stating what \<open>finalize\<close> returns. \<open>adapted_params\<close> are the parameters that
  \<open>adapt\<close> returns when there is a label; \<open>marked_names b i\<close> are the names that the builder
  holds as revealed for credential \<open>i\<close>, \<open>revealed_names\<close> these and the names that are
  always revealed; \<open>expected_statement\<close> and \<open>expected_witness\<close> are the signature
  statement and witness of a credential; \<open>status_aux\<close> is the entry of \<open>credStatusAux\<close>
  for a credential with a status.
\<close>

definition adapted_params :: "Externals \<Rightarrow> PSSignatureParams \<Rightarrow> bytes \<Rightarrow> nat \<Rightarrow> PSSignatureParams" where
  "adapted_params ext p lbl n =
     \<lparr>label = Some lbl,
      params_value =
        (if n \<le> supportedMessageCount p
         then \<lparr>sig_g = sig_g (params_value p), sig_g_tilde = sig_g_tilde (params_value p),
               sig_h = take n (sig_h (params_value p))\<rparr>
         else psAdaptSignatureParamsForMsgCount ext (params_value p) lbl n)\<rparr>"

definition marked_names :: "PresentationBuilder \<Rightarrow> nat \<Rightarrow> string list" where
  "marked_names b i = (case map_of (revealedAttributes b) (int i) of None \<Rightarrow> [] | Some r \<Rightarrow> r)"

definition revealed_names :: "PresentationBuilder \<Rightarrow> nat \<Rightarrow> Credential \<Rightarrow> string list" where
  "revealed_names b i cred = always_revealed cred (marked_names b i)"

definition expected_statement ::
  "Externals \<Rightarrow> PresentationBuilder \<Rightarrow> nat \<times> Credential \<times> bytes \<Rightarrow> Statement" where
  "expected_statement ext b = (\<lambda>(i, cred, pk).
     StatementBbsSignature
       (adapted_params ext (generate ext 2 (Some (SIGNATURE_PARAMS_LABEL_BYTES ext)))
          (SIGNATURE_PARAMS_LABEL_BYTES ext) (length (fst (flatten (cred_schema cred)))))
       pk
       (fst (split_positions (fst (flatten (cred_schema cred))) (attributeVector cred)
               (revealed_names b i cred)))
       False)"

definition expected_witness :: "PresentationBuilder \<Rightarrow> nat \<times> Credential \<times> bytes \<Rightarrow> Witness" where
  "expected_witness b = (\<lambda>(i, cred, pk).
     WitnessBbsSignature (signature cred)
       (snd (split_positions (fst (flatten (cred_schema cred))) (attributeVector cred)
               (revealed_names b i cred)))
       False)"

definition status_aux :: "Externals \<Rightarrow> nat \<times> Credential \<times> bytes \<Rightarrow> (nat \<times> string \<times> bytes) list" where
  "status_aux ext = (\<lambda>(i, cred, pk).
     (case credStatus cred of
        None \<Rightarrow> []
      | Some status \<Rightarrow>
          (case encodeMessage ext (encoder (cred_schema cred)) (STATUS_STR @ ''.'' @ REV_ID_STR)
                  (revocationId status) of
             None \<Rightarrow> []
           | Some encoded \<Rightarrow> [(i, revocationCheck status, encoded)])))"

fun is_membership :: "AccumulatorWitness \<Rightarrow> bool" where
  "is_membership (MembershipWitness w) = True"
| "is_membership (NonMembershipWitness w) = False"

text \<open>
  The accumulator statement and witness for a check \<open>t\<close>, the witness-equality that links
  position \<open>status.revocationId\<close> of credential \<open>i\<close> to position 0 of statement \<open>sIdx\<close>,
  and the witness-equality of an attribute-equality request.
\<close>

definition accum_statement :: "string \<Rightarrow> bytes \<Rightarrow> bytes \<Rightarrow> Statement" where
  "accum_statement t pk acc =
     (if t = MEM_CHECK_STR
      then StatementAccumulatorMembership dockAccumulatorParams pk
             dockAccumulatorMemProvingKey acc
      else StatementAccumulatorNonMembership dockAccumulatorParams pk
             dockAccumulatorNonMemProvingKey acc)"

definition accum_witness :: "string \<Rightarrow> bytes \<Rightarrow> AccumulatorWitness \<Rightarrow> Witness" where
  "accum_witness t encoded wit =
     (if t = MEM_CHECK_STR then WitnessAccumulatorMembership encoded wit
      else WitnessAccumulatorNonMembership encoded wit)"

definition status_meta :: "(string list \<times> json list) list \<Rightarrow> nat \<times> nat \<times> string \<times> bytes \<Rightarrow> MetaStatement" where
  "status_meta fl = (\<lambda>(sIdx, i, t, encoded).
     WitnessEquality [(int i, indexOf (fst (fl ! i)) (STATUS_STR @ ''.'' @ REV_ID_STR)),
                      (int sIdx, 0)])"

definition equality_meta :: "(string list \<times> json list) list \<Rightarrow> (int \<times> string) list \<Rightarrow> MetaStatement" where
  "equality_meta fl eql =
     WitnessEquality
       (map (\<lambda>(cIdx, name). (cIdx, indexOf (fst (fl ! nat cIdx)) (SUBJECT_STR @ ''.'' @ name)))
          eql)"

text \<open>
  The statement and witness that \<open>credStatusAux.forEach\<close> adds for an entry, read from the
  status details that the builder holds for the credential (an entry without details
  ends \<open>finalize\<close> before).
\<close>

definition expected_accum_statement :: "PresentationBuilder \<Rightarrow> nat \<times> string \<times> bytes \<Rightarrow> Statement" where
  "expected_accum_statement b = (\<lambda>(i, t, encoded).
     (case map_of (credStatuses b) (int i) of
        Some (wit, acc, pk, extra) \<Rightarrow> accum_statement t pk acc
      | None \<Rightarrow> accum_statement t [] []))"

definition expected_accum_witness :: "PresentationBuilder \<Rightarrow> nat \<times> string \<times> bytes \<Rightarrow> Witness" where
  "expected_accum_witness b = (\<lambda>(i, t, encoded).
     (case map_of (credStatuses b) (int i) of
        Some (wit, acc, pk, extra) \<Rightarrow> accum_witness t encoded wit
      | None \<Rightarrow> accum_witness t encoded (MembershipWitness [])))"

text \<open>The flattened schemas of the credentials, and the entries of \<open>credStatusAux\<close>.\<close>

definition flattened_schemas :: "PresentationBuilder \<Rightarrow> (string list \<times> json list) list" where
  "flattened_schemas b = map (\<lambda>(cred, pk). flatten (cred_schema cred)) (credentials b)"

definition status_creds :: "Externals \<Rightarrow> PresentationBuilder \<Rightarrow> (nat \<times> string \<times> bytes) list" where
  "status_creds ext b = concat (map (status_aux ext) (enumerate 0 (credentials b)))"

definition has_status :: "Credential \<times> bytes \<Rightarrow> bool" where
  "has_status = (\<lambda>(cred, pk). credStatus cred \<noteq> None)"

text \<open>Every name that the builder holds as revealed is a name under the subject.\<close>

definition subject_names_only :: "PresentationBuilder \<Rightarrow> bool" where
  "subject_names_only b =
     list_all (\<lambda>(i, ns). list_all (\<lambda>n. take 18 n = SUBJECT_STR @ ''.'') ns)
       (revealedAttributes b)"

text \<open>
  For the examples, a stand-in for the proof generation of the back end. It returns a
  proof only for a specification that it can prove: there is one witness per statement,
  and every witness-equality refers to at least two witnesses, each of them an unrevealed
  position of a signature witness or position 0 of an accumulator witness, that hold the
  same scalar. Otherwise it throws; in particular it throws for an equality over a
  revealed position.
\<close>

definition witness_at :: "Witness list \<Rightarrow> int \<times> int \<Rightarrow> bytes option" where
  "witness_at wits = (\<lambda>(sIdx, p).
     (case nth_opt wits sIdx of
        None \<Rightarrow> None
      | Some (WitnessBbsSignature sg unrevealedMsgs e) \<Rightarrow>
          (if 0 \<le> p then map_of unrevealedMsgs (nat p) else None)
      | Some (WitnessAccumulatorMembership member w) \<Rightarrow> (if p = 0 then Some member else None)
      | Some (WitnessAccumulatorNonMembership member w) \<Rightarrow>
          (if p = 0 then Some member else None)))"

fun provable_equality :: "Witness list \<Rightarrow> MetaStatement \<Rightarrow> bool" where
  "provable_equality wits (WitnessEquality refs) =
     (case map (witness_at wits) refs of
        Some v # w # ws \<Rightarrow> list_all (\<lambda>x. x = Some v) (w # ws)
      | _ \<Rightarrow> False)"

definition demo_generate ::
  "Statement list \<Rightarrow> MetaStatement list \<Rightarrow> bytes option \<Rightarrow> Witness list \<Rightarrow> bytes option
     \<Rightarrow> string + bytes" where
  "demo_generate sts metas ctx wits nonce =
     (if length sts = length wits \<and> list_all (provable_equality wits) metas
      then Inr [42]
      else Inl ''InvalidProofSpec'')"

text \<open>
  For the examples: stand-ins for the other externals (parameters for \<open>n\<close> messages hold
  \<open>n\<close> generators), a schema with a status, a credential without and one with a status,
  and a builder that holds both. The two credentials hold the same scalar for
  \<open>credentialSubject.fname\<close>, and the second holds the encoded \<open>revocationId\<close> at the
  position of \<open>credentialStatus.revocationId\<close>.
\<close>

definition demo_ext :: Externals where
  "demo_ext =
     \<lparr>psGenerateSignatureParams =
        (\<lambda>n lbl. \<lparr>sig_g = [1], sig_g_tilde = [2], sig_h = map (\<lambda>i. [i]) [0..<n]\<rparr>),
      psAdaptSignatureParamsForMsgCount =
        (\<lambda>p lbl n. \<lparr>sig_g = sig_g p, sig_g_tilde = sig_g_tilde p,
                     sig_h = map (\<lambda>i. [i]) [0..<n]\<rparr>),
      encodeMessage = (\<lambda>enc name v. Some (map of_char v)),
      generateUsingQuasiProofSpec = demo_generate,
      SIGNATURE_PARAMS_LABEL_BYTES = [7]\<rparr>"

definition demo_status_schema :: CredentialSchema where
  "demo_status_schema =
     \<lparr>version = ''0.0.1'',
      schema =
        JObj [(''credentialSubject'', JObj [(''fname'', JObj [(''type'', JStr ''string'')])]),
              (''credentialStatus'',
                 JObj [(''id'', JObj [(''type'', JStr ''string'')]),
                       (''type'', JObj [(''type'', JStr ''string'')]),
                       (''revocationCheck'', JObj [(''type'', JStr ''string'')]),
                       (''revocationId'', JObj [(''type'', JStr ''string'')])])],
      jsonSchema = JNull,
      parsingOptions = DefaultSchemaParsingOpts,
      encoder = \<lparr>encoders = [], defaultEncoder = Some defaultEncodeFunc\<rparr>\<rparr>"

definition demo_cred :: Credential where
  "demo_cred =
     \<lparr>cred_schema = demo_schema, credStatus = None, signature = [9], issuerPubKey = ''issuer'',
      attributeVector = [[10], [11], [12], [13]]\<rparr>"

definition demo_status_cred :: Credential where
  "demo_status_cred =
     \<lparr>cred_schema = demo_status_schema,
      credStatus = Some \<lparr>registryId = ''dock:accumulator:accumId123'',
                         revocationCheck = ''membership'', revocationId = ''A''\<rparr>,
      signature = [8], issuerPubKey = ''issuer'',
      attributeVector = [[20], [21], [22], [65], [24], [11], [26]]\<rparr>"

definition demo_builder :: PresentationBuilder where
  "demo_builder =
     new_PresentationBuilder\<lparr>credentials := [(demo_cred, [3]), (demo_status_cred, [4])]\<rparr>"

text \<open>
  The builder of the example after \<open>markAttributesRevealed 0 {score}\<close>,
  \<open>addAccumInfoForCredStatus 1\<close> and \<open>markAttributesEqual (0, fname) (1, fname)\<close>, and what
  \<open>finalize\<close> returns on it.
\<close>

definition demo_marked :: PresentationBuilder where
  "demo_marked =
     demo_builder
       \<lparr>revealedAttributes := [(0, [''credentialSubject.score''])],
        attributeEqualities := [[(0, ''fname''), (1, ''fname'')]],
        credStatuses := [(1, MembershipWitness [5], [6], [7], JNull)]\<rparr>"

definition demo_params :: "nat \<Rightarrow> PSSignatureParams" where
  "demo_params n =
     \<lparr>label = Some [7],
      params_value = \<lparr>sig_g = [1], sig_g_tilde = [2], sig_h = map (\<lambda>i. [i]) [0..<n]\<rparr>\<rparr>"

definition demo_finalized :: Finalized where
  "demo_finalized =
     \<lparr>out_statements =
        [StatementBbsSignature (demo_params 4) [3] [(0, [10]), (2, [12]), (3, [13])] False,
         StatementBbsSignature (demo_params 7) [4]
           [(0, [20]), (1, [21]), (2, [22]), (6, [26])] False,
         StatementAccumulatorMembership dockAccumulatorParams [7]
           dockAccumulatorMemProvingKey [6]],
      out_metaStatements =
        [WitnessEquality [(1, 3), (2, 0)], WitnessEquality [(0, 1), (1, 5)]],
      out_witnesses =
        [WitnessBbsSignature [9] [(1, [11])] False,
         WitnessBbsSignature [8] [(3, [65]), (4, [24]), (5, [11])] False,
         WitnessAccumulatorMembership [65] (MembershipWitness [5])],
      out_sigParams = demo_params 2,
      out_maxAttribs = 7,
      out_proof = [42],
      out_builder =
        demo_marked
          \<lparr>revealedAttributes :=
             [(0, [''credentialSubject.score'', ''cryptoVersion'', ''credentialSchema''])]\<rparr>\<rparr>"

text \<open>
  The status of the second credential, and builders on which \<open>finalize\<close> throws: one
  with a non-membership witness for the membership check, one with an equality over a
  name that the schema of the second credential does not have, and one with an equality
  over an attribute that is also revealed, which only the proof generation rejects.
\<close>

definition demo_status :: CredStatus where
  "demo_status =
     \<lparr>registryId = ''dock:accumulator:accumId123'', revocationCheck = ''membership'',
      revocationId = ''A''\<rparr>"

definition demo_mismatch :: PresentationBuilder where
  "demo_mismatch =
     demo_marked\<lparr>credStatuses := [(1, NonMembershipWitness [5], [6], [7], JNull)]\<rparr>"

definition demo_unknown_name :: PresentationBuilder where
  "demo_unknown_name =
     demo_marked\<lparr>attributeEqualities := [[(0, ''fname''), (1, ''lname'')]]\<rparr>"

definition demo_revealed_equal :: PresentationBuilder where
  "demo_revealed_equal =
     demo_marked\<lparr>revealedAttributes := [(0, [''credentialSubject.fname''])]\<rparr>"

text \<open>
  Notions for stating what flattening returns. The value under a key is a field of an
  object or the item of an array under its zero-based index; \<open>value_at v ks\<close> follows the
  keys \<open>ks\<close> from \<open>v\<close>. A composite value is a non-empty object or array; every other
  value is innermost. \<open>dotted\<close> joins keys with dots. A key is plain when it is not empty
  and holds no dot; \<open>plain_value\<close> says that every object of a value has distinct, plain
  keys. \<open>is_leaf_field root ks k v\<close>: under the keys \<open>ks\<close>, then \<open>k\<close>, the value \<open>root\<close> holds
  the innermost value \<open>v\<close>, so that \<open>k\<close> is a field of the descriptor at \<open>ks\<close>.
\<close>

definition plain_key :: "string \<Rightarrow> bool" where
  "plain_key k = (k \<noteq> [] \<and> CHR ''.'' \<notin> set k)"

fun child :: "json \<Rightarrow> string \<Rightarrow> json option" where
  "child (JObj kvs) k = map_of kvs k"
| "child (JArr xs) k = map_of (zip (map show_nat [0..<length xs]) xs) k"
| "child v k = None"

fun value_at :: "json \<Rightarrow> string list \<Rightarrow> json option" where
  "value_at v [] = Some v"
| "value_at v (k # ks) = (case child v k of None \<Rightarrow> None | Some c \<Rightarrow> value_at c ks)"

fun composite :: "json \<Rightarrow> bool" where
  "composite (JObj (kv # kvs)) = True"
| "composite (JArr (x # xs)) = True"
| "composite v = False"

fun dotted :: "string list \<Rightarrow> string" where
  "dotted [] = []"
| "dotted [k] = k"
| "dotted (k # ks) = k @ ''.'' @ dotted ks"

fun plain_value :: "json \<Rightarrow> bool"
  and plain_fields :: "(string \<times> json) list \<Rightarrow> bool"
  and plain_items :: "json list \<Rightarrow> bool" where
  "plain_value (JObj kvs) = (distinct (map fst kvs) \<and> plain_fields kvs)"
| "plain_value (JArr xs) = plain_items xs"
| "plain_value v = True"
| "plain_fields [] = True"
| "plain_fields ((k, v) # kvs) = (plain_key k \<and> plain_value v \<and> plain_fields kvs)"
| "plain_items [] = True"
| "plain_items (x # xs) = (plain_value x \<and> plain_items xs)"

definition is_leaf_field :: "json \<Rightarrow> string list \<Rightarrow> string \<Rightarrow> json \<Rightarrow> bool" where
  "is_leaf_field root ks k v = (value_at root (ks @ [k]) = Some v \<and> \<not> composite v)"

text \<open>The innermost values of a value, each with the keys that lead to it.\<close>

definition leaves :: "json \<Rightarrow> (string list \<times> json) set" where
  "leaves v = {(ks, x). value_at v ks = Some x \<and> \<not> composite x}"

text \<open>The field \<open>t\<close> of the descriptor that a grouping holds for \<open>name\<close>.\<close>

definition field_of ::
  "(string \<times> (string \<times> json) list) list \<Rightarrow> string \<Rightarrow> string \<Rightarrow> json option" where
  "field_of groups name t = (case map_of groups name of None \<Rightarrow> None | Some d \<Rightarrow> map_of d t)"

text \<open>A node without \<open>$ref\<close> whose \<open>type\<close> is the string \<open>typ\<close>.\<close>

definition plain_node :: "json \<Rightarrow> string \<Rightarrow> bool" where
  "plain_node node typ =
     (get_field node ''$ref'' = None \<and> get_field node ''type'' = Some (JStr typ))"

text \<open>JSON-schema nodes for the examples.\<close>

definition node_number :: "jsnum \<Rightarrow> jsnum \<Rightarrow> json" where
  "node_number minimum multipleOf =
     JObj [(''type'', JStr ''number''), (''minimum'', JNum minimum),
           (''multipleOf'', JNum multipleOf)]"

definition node_integer :: "jsnum \<Rightarrow> json" where
  "node_integer minimum = JObj [(''type'', JStr ''integer''), (''minimum'', JNum minimum)]"

definition node_array :: json where
  "node_array =
     JObj [(''type'', JStr ''array''),
           (''items'', JArr [JObj [(''type'', JStr ''string'')], node_integer (Dec (- 5) 0)])]"

definition no_pointer :: "json \<Rightarrow> string \<Rightarrow> json option" where
  "no_pointer root path = None"

text \<open>
  Two internal schemas for the examples: a subject with one string leaf, and a subject
  that is an array of two objects, next to a status and an issuer.
\<close>

definition schema_fname :: json where
  "schema_fname = JObj [(''credentialSubject'', JObj [(''fname'', string_type)])]"

definition schema_array :: json where
  "schema_array =
     JObj [(''credentialSubject'',
              JArr [JObj [(''name'', string_type),
                          (''geo'', JObj [(''lat'',
                             JObj [(''type'', JStr ''decimalNumber''),
                                   (''minimum'', JNum (Dec (-9) 1)),
                                   (''decimalPlaces'', JNum (Dec 3 0))])])],
                    JObj [(''name'', string_type)]]),
           (''issuer'', JObj [(''name'', string_type)]),
           (''credentialStatus'',
              JObj [(''id'', string_type), (''revocationId'', string_type)])]"

section \<open>Properties\<close>

subsection \<open>Proof specifications\<close>

text \<open>
  C9. For all statements, meta-statements, setup parameters (given or not) and optional
  context, the quasi proof specification built from them materialises, by
  \<open>toProofSpec\<close>, to the proof specification that the constructor of \<open>ProofSpecG1\<close> builds
  from the same arguments.
\<close>

theorem toProofSpec_eq_new_ProofSpecG1:
  "toProofSpec gen (new_QuasiProofSpecG1 (Some sts) (Some msts) sps ctx)
     = new_ProofSpecG1 gen sts msts sps ctx"
  by (cases sps) (simp_all add: toProofSpec_def new_QuasiProofSpecG1_def new_ProofSpecG1_def)

subsection \<open>Flattening\<close>

lemma keys_upsert: "fst ` set (upsert k v m) = insert k (fst ` set m)"
proof (induction m)
  case Nil
  then show ?case by simp
next
  case (Cons a m)
  obtain k' v' where a: "a = (k', v')" by (cases a)
  show ?case using Cons.IH a by (auto simp: insert_commute)
qed

lemma distinct_upsert: "distinct (map fst m) \<Longrightarrow> distinct (map fst (upsert k v m))"
  by (induction m) (auto simp: keys_upsert)

lemma upsert_fresh: "k \<notin> fst ` set B \<Longrightarrow> upsert k v B = B @ [(k, v)]"
  by (induction B) auto

lemma assign_all_distinct:
  "distinct (map fst kvs) \<Longrightarrow> fst ` set kvs \<inter> fst ` set B = {}
     \<Longrightarrow> assign_all kvs B = B @ kvs"
proof (induction kvs arbitrary: B)
  case Nil
  then show ?case by (simp add: assign_all_def)
next
  case (Cons kv kvs)
  obtain k v where kv: "kv = (k, v)" by (cases kv)
  have fresh: "k \<notin> fst ` set B" using Cons.prems kv by auto
  have "assign_all (kv # kvs) B = assign_all kvs (B @ [(k, v)])"
    using fresh kv by (simp add: assign_all_def upsert_fresh)
  also have "\<dots> = (B @ [(k, v)]) @ kvs"
  proof (rule Cons.IH)
    show "distinct (map fst kvs)" using Cons.prems by simp
    show "fst ` set kvs \<inter> fst ` set (B @ [(k, v)]) = {}"
      using Cons.prems kv by (auto simp: image_iff)
  qed
  finally show ?case using kv by simp
qed

lemma flat_fields_append: "flat_fields p (A @ B) = flat_fields p A @ flat_fields p B"
  by (induction A) auto

lemma group_step_keys:
  "fst ` set (group_step kv acc) = insert (fst (split_last_key (fst kv))) (fst ` set acc)"
  by (cases kv, cases "split_last_key (fst kv)") (simp add: group_step_def keys_upsert)

lemma group_step_distinct:
  "distinct (map fst acc) \<Longrightarrow> distinct (map fst (group_step kv acc))"
  by (cases kv, cases "split_last_key (fst kv)") (simp add: group_step_def distinct_upsert)

lemma fold_group_keys:
  "fst ` set (fold group_step paths acc)
     = (\<lambda>kv. fst (split_last_key (fst kv))) ` set paths \<union> fst ` set acc"
  by (induction paths arbitrary: acc) (auto simp: group_step_keys)

lemma fold_group_distinct:
  "distinct (map fst acc) \<Longrightarrow> distinct (map fst (fold group_step paths acc))"
  by (induction paths arbitrary: acc) (auto simp: group_step_distinct)

lemma group_paths_keys:
  "set (map fst (group_paths paths)) = (\<lambda>kv. fst (split_last_key (fst kv))) ` set paths"
  using fold_group_keys [of paths "[]"] by (simp add: group_paths_def)

lemma group_paths_distinct: "distinct (map fst (group_paths paths))"
  using fold_group_distinct [of "[]" paths] by (simp add: group_paths_def)

lemma flattenTill2ndLastKey_names:
  "set (fst (flattenTill2ndLastKey obj))
     = (\<lambda>kv. fst (split_last_key (fst kv))) ` set (flat_fields [] obj)"
  by (simp add: flattenTill2ndLastKey_def Let_def group_paths_keys del: set_map)

lemma flattenTill2ndLastKey_sorted:
  "sorted (fst (flattenTill2ndLastKey obj)) \<and> distinct (fst (flattenTill2ndLastKey obj))
   \<and> length (snd (flattenTill2ndLastKey obj)) = length (fst (flattenTill2ndLastKey obj))"
  by (simp add: flattenTill2ndLastKey_def Let_def group_paths_distinct)

lemma flat_implicit:
  "(\<lambda>kv. fst (split_last_key (fst kv))) ` set (flat_fields [] IMPLICIT_FIELDS)
     = {CRYPTO_VERSION_STR, SCHEMA_STR}"
  by (auto simp add: IMPLICIT_FIELDS_def string_type_def newKey_def split_last_key_def
        CRYPTO_VERSION_STR_def SCHEMA_STR_def)

lemma show_nat_nonempty: "show_nat n \<noteq> []"
  by (subst show_nat.simps) simp

lemma digit_char_cases:
  "d < 10 \<Longrightarrow> d = 0 \<or> d = 1 \<or> d = 2 \<or> d = 3 \<or> d = 4 \<or> d = 5 \<or> d = 6 \<or> d = 7 \<or> d = 8 \<or> d = (9::nat)"
  by arith

lemma digit_char_not_dot: "digit_char d \<noteq> CHR ''.'' \<and> CHR ''.'' \<noteq> digit_char d"
proof -
  have "d mod 10 < 10" by simp
  from digit_char_cases [OF this] show ?thesis
    by (elim disjE) (simp_all add: digit_char_def)
qed

lemma digit_char_inj:
  assumes "a < 10" and "b < 10" and "digit_char a = digit_char b"
  shows "a = b"
  using digit_char_cases [OF assms(1)] digit_char_cases [OF assms(2)] assms(3)
  by (elim disjE) (simp_all add: digit_char_def)

lemma show_nat_plain: "plain_key (show_nat n)"
proof (induction n rule: show_nat.induct)
  case (1 n)
  show ?case
  proof (cases "n < 10")
    case True
    then show ?thesis
      by (subst show_nat.simps) (simp add: plain_key_def digit_char_not_dot)
  next
    case False
    then show ?thesis using "1.IH"
      by (subst show_nat.simps) (simp add: plain_key_def digit_char_not_dot)
  qed
qed

lemma show_nat_inj: "show_nat n = show_nat m \<Longrightarrow> n = m"
proof (induction n arbitrary: m rule: show_nat.induct)
  case (1 n)
  show ?case
  proof (cases "n < 10")
    case True
    note n = True
    show ?thesis
    proof (cases "m < 10")
      case True
      have "digit_char n = digit_char m"
        using "1.prems" n True by (subst (asm) (1 2) show_nat.simps) simp
      then show ?thesis using n True by (intro digit_char_inj)
    next
      case False
      then show ?thesis using "1.prems" n show_nat_nonempty [of "m div 10"]
        by (subst (asm) (1 2) show_nat.simps) simp
    qed
  next
    case False
    note n = False
    show ?thesis
    proof (cases "m < 10")
      case True
      then show ?thesis using "1.prems" n show_nat_nonempty [of "n div 10"]
        by (subst (asm) (1 2) show_nat.simps) simp
    next
      case False
      have e: "show_nat (n div 10) = show_nat (m div 10) \<and> digit_char (n mod 10) = digit_char (m mod 10)"
        using "1.prems" n False by (subst (asm) (1 2) show_nat.simps) simp
      have d: "n div 10 = m div 10" using "1.IH" [OF n] e by simp
      have "n mod 10 = m mod 10" using e by (intro digit_char_inj) simp_all
      then show ?thesis using d by (metis div_mult_mod_eq)
    qed
  qed
qed

lemma indexed_zip: "indexed i xs = zip (map show_nat [i..<i + length xs]) xs"
proof (induction xs arbitrary: i)
  case Nil
  then show ?case by simp
next
  case (Cons x xs)
  have "[i..<i + length (x # xs)] = i # [Suc i..<Suc i + length xs]"
    by (simp add: upt_rec)
  then show ?case using Cons.IH [of "Suc i"] by simp
qed

lemma indexed_keys: "map fst (indexed i xs) = map show_nat [i..<i + length xs]"
  by (simp add: indexed_zip)

lemma indexed_values: "map snd (indexed i xs) = xs"
  by (simp add: indexed_zip)

lemma indexed_distinct: "distinct (map fst (indexed i xs))"
  unfolding indexed_keys by (simp add: distinct_map inj_on_def show_nat_inj)

lemma flat_items_indexed: "flat_items p i xs = flat_fields p (indexed i xs)"
  by (induction xs arbitrary: i) simp_all

lemma flat_fields_set:
  "set (flat_fields p kvs) = (\<Union>(k, c) \<in> set kvs. set (flat_value (newKey p k) c))"
  by (induction kvs) auto

text \<open>The entries that flattening descends into: those of an object, an array's items under their indices.\<close>

lemma child_indexed: "child (JArr xs) k = map_of (indexed 0 xs) k"
  by (simp add: indexed_zip)

lemma plain_fields_iff:
  "plain_fields kvs \<longleftrightarrow> (\<forall>(k, c) \<in> set kvs. plain_key k \<and> plain_value c)"
  by (induction kvs) auto

lemma plain_items_iff: "plain_items xs \<longleftrightarrow> (\<forall>x \<in> set xs. plain_value x)"
  by (induction xs) auto

lemma plain_fields_indexed: "plain_items xs \<Longrightarrow> plain_fields (indexed i xs)"
  by (induction xs arbitrary: i) (simp_all add: show_nat_plain)

lemma dotted_snoc: "ps \<noteq> [] \<Longrightarrow> dotted (ps @ [k]) = dotted ps @ ''.'' @ k"
  by (induction ps rule: dotted.induct) auto

lemma dotted_empty: "list_all plain_key ps \<Longrightarrow> dotted ps = [] \<longleftrightarrow> ps = []"
  by (cases ps rule: dotted.cases) (auto simp: plain_key_def)

lemma newKey_dotted: "list_all plain_key ps \<Longrightarrow> newKey (dotted ps) k = dotted (ps @ [k])"
  by (cases "ps = []") (simp_all add: newKey_def dotted_empty dotted_snoc)

lemma split_last_plain: "plain_key k \<Longrightarrow> split_last_key (pre @ CHR ''.'' # k) = (pre, k)"
proof -
  assume "plain_key k"
  then have nd: "\<And>c. c \<in> set (rev k) \<Longrightarrow> c \<noteq> CHR ''.''" by (auto simp: plain_key_def)
  have r: "rev (pre @ CHR ''.'' # k) = rev k @ CHR ''.'' # rev pre" by simp
  have "takeWhile (\<lambda>c. c \<noteq> CHR ''.'') (rev k @ CHR ''.'' # rev pre)
      = rev k @ takeWhile (\<lambda>c. c \<noteq> CHR ''.'') (CHR ''.'' # rev pre)"
    by (rule takeWhile_append2) (rule nd)
  then have t: "takeWhile (\<lambda>c. c \<noteq> CHR ''.'') (rev k @ CHR ''.'' # rev pre) = rev k"
    by simp
  have "dropWhile (\<lambda>c. c \<noteq> CHR ''.'') (rev k @ CHR ''.'' # rev pre)
      = dropWhile (\<lambda>c. c \<noteq> CHR ''.'') (CHR ''.'' # rev pre)"
    by (rule dropWhile_append2) (rule nd)
  then have d: "dropWhile (\<lambda>c. c \<noteq> CHR ''.'') (rev k @ CHR ''.'' # rev pre) = CHR ''.'' # rev pre"
    by simp
  show ?thesis unfolding split_last_key_def Let_def r t d by simp
qed

lemma split_last_single: "plain_key k \<Longrightarrow> split_last_key k = ([], k)"
proof -
  assume "plain_key k"
  then have nd: "\<And>c. c \<in> set (rev k) \<Longrightarrow> c \<noteq> CHR ''.''" by (auto simp: plain_key_def)
  have t: "takeWhile (\<lambda>c. c \<noteq> CHR ''.'') (rev k) = rev k"
    using nd by (simp add: takeWhile_eq_all_conv)
  have d: "dropWhile (\<lambda>c. c \<noteq> CHR ''.'') (rev k) = []"
    using nd by (simp add: dropWhile_eq_Nil_conv)
  show ?thesis unfolding split_last_key_def Let_def t d by simp
qed

lemma split_last_dotted:
  "plain_key k \<Longrightarrow> split_last_key (dotted (ps @ [k])) = (dotted ps, k)"
  by (cases "ps = []") (simp_all add: split_last_single dotted_snoc split_last_plain)

lemma dotted_inj:
  "list_all plain_key ps \<Longrightarrow> list_all plain_key qs \<Longrightarrow> dotted ps = dotted qs \<Longrightarrow> ps = qs"
proof (induction ps arbitrary: qs rule: rev_induct)
  case Nil
  then show ?case using dotted_empty [of qs] by simp
next
  case (snoc k ps)
  have "qs \<noteq> []"
  proof
    assume "qs = []"
    then have "dotted (ps @ [k]) = []" using snoc.prems(3) by simp
    then show False using dotted_empty [OF snoc.prems(1)] by simp
  qed
  then obtain qs' k' where qs: "qs = qs' @ [k']" by (cases qs rule: rev_cases) auto
  have pk: "plain_key k" "plain_key k'" using snoc.prems(1,2) qs by simp_all
  have "split_last_key (dotted (ps @ [k])) = split_last_key (dotted (qs' @ [k']))"
    using snoc.prems(3) qs by simp
  then have e: "dotted ps = dotted qs' \<and> k = k'"
    using pk by (simp add: split_last_dotted)
  have "ps = qs'" using snoc.IH [of qs'] snoc.prems(1,2) qs e by simp
  then show ?case using e qs by simp
qed

lemma leaves_innermost: "\<not> composite v \<Longrightarrow> leaves v = {([], v)}"
proof -
  assume nc: "\<not> composite v"
  have "child v k = None" for k
    using nc by (cases v rule: composite.cases) simp_all
  then have "value_at v ks = Some x \<longleftrightarrow> ks = [] \<and> x = v" for ks x
    by (cases ks) auto
  then show ?thesis using nc by (auto simp: leaves_def)
qed

lemma leaves_fields:
  assumes "distinct (map fst kvs)" and "child v = map_of kvs" and "composite v"
  shows "leaves v = (\<Union>(k, c) \<in> set kvs. (\<lambda>(ks, x). (k # ks, x)) ` leaves c)"
proof (rule set_eqI)
  fix e :: "string list \<times> json"
  obtain ks x where e: "e = (ks, x)" by (cases e)
  show "e \<in> leaves v \<longleftrightarrow> e \<in> (\<Union>(k, c) \<in> set kvs. (\<lambda>(ks, x). (k # ks, x)) ` leaves c)"
  proof (cases ks)
    case Nil
    then show ?thesis using assms(3) e by (auto simp: leaves_def)
  next
    case (Cons k ks')
    have "(k # ks', x) \<in> leaves v
      \<longleftrightarrow> (\<exists>c. map_of kvs k = Some c \<and> (ks', x) \<in> leaves c)"
      by (auto simp: leaves_def assms(2) split: option.splits)
    also have "\<dots> \<longleftrightarrow> (\<exists>c. (k, c) \<in> set kvs \<and> (ks', x) \<in> leaves c)"
      using assms(1) by (auto dest: map_of_SomeD)
    finally show ?thesis unfolding e Cons by force
  qed
qed

lemma value_at_plain:
  "plain_value v \<Longrightarrow> value_at v ks = Some x \<Longrightarrow> list_all plain_key ks \<and> plain_value x"
proof (induction ks arbitrary: v)
  case Nil
  then show ?case by simp
next
  case (Cons k ks)
  from Cons.prems(2) obtain c where c: "child v k = Some c" and r: "value_at c ks = Some x"
    by (auto split: option.splits)
  have "plain_key k \<and> plain_value c"
  proof (cases v)
    case (JObj kvs)
    then have "(k, c) \<in> set kvs" using c by (auto dest: map_of_SomeD)
    then show ?thesis using Cons.prems(1) JObj by (auto simp: plain_fields_iff)
  next
    case (JArr xs)
    then have "map_of (indexed 0 xs) k = Some c"
      using c child_indexed [of xs k] by simp
    then have "(k, c) \<in> set (indexed 0 xs)" by (rule map_of_SomeD)
    moreover have "plain_fields (indexed 0 xs)"
      using Cons.prems(1) JArr by (simp add: plain_fields_indexed)
    ultimately show ?thesis by (auto simp: plain_fields_iff)
  qed (use c in simp_all)
  then show ?case using Cons.IH [of c] r by simp
qed

lemma flat_fields_distinct:
  assumes "\<And>k c. (k, c) \<in> set kvs \<Longrightarrow> distinct (map fst (flat_value (newKey p k) c))"
    and "distinct (map fst kvs)"
    and "\<And>k c k' c'. (k, c) \<in> set kvs \<Longrightarrow> (k', c') \<in> set kvs \<Longrightarrow> k \<noteq> k'
           \<Longrightarrow> fst ` set (flat_value (newKey p k) c) \<inter> fst ` set (flat_value (newKey p k') c') = {}"
  shows "distinct (map fst (flat_fields p kvs))"
  using assms
proof (induction kvs)
  case Nil
  then show ?case by simp
next
  case (Cons kv kvs)
  obtain k c where kv: "kv = (k, c)" by (cases kv)
  have here: "(k, c) \<in> set (kv # kvs)" using kv by simp
  have d1: "distinct (map fst (flat_value (newKey p k) c))"
    by (rule Cons.prems(1) [OF here])
  have d2: "distinct (map fst (flat_fields p kvs))"
  proof (rule Cons.IH)
    fix k1 c1
    assume "(k1, c1) \<in> set kvs"
    then have "(k1, c1) \<in> set (kv # kvs)" by simp
    then show "distinct (map fst (flat_value (newKey p k1) c1))" by (rule Cons.prems(1))
  next
    show "distinct (map fst kvs)" using Cons.prems(2) by simp
  next
    fix k1 c1 k2 c2
    assume "(k1, c1) \<in> set kvs" and "(k2, c2) \<in> set kvs" and ne: "k1 \<noteq> k2"
    then have "(k1, c1) \<in> set (kv # kvs)" and "(k2, c2) \<in> set (kv # kvs)" by simp_all
    then show "fst ` set (flat_value (newKey p k1) c1)
                 \<inter> fst ` set (flat_value (newKey p k2) c2) = {}"
      using ne by (rule Cons.prems(3))
  qed
  have d3: "set (map fst (flat_value (newKey p k) c)) \<inter> set (map fst (flat_fields p kvs)) = {}"
  proof (rule ccontr)
    assume "set (map fst (flat_value (newKey p k) c)) \<inter> set (map fst (flat_fields p kvs)) \<noteq> {}"
    then obtain n where n1: "n \<in> fst ` set (flat_value (newKey p k) c)"
      and n2: "n \<in> fst ` set (flat_fields p kvs)" by auto
    from n2 obtain e where e: "e \<in> set (flat_fields p kvs)" and ne: "n = fst e" by blast
    from e obtain k' c' where m: "(k', c') \<in> set kvs"
      and e': "e \<in> set (flat_value (newKey p k') c')"
      unfolding flat_fields_set by blast
    have n3: "n \<in> fst ` set (flat_value (newKey p k') c')" using e' ne by blast
    have "k' \<in> set (map fst kvs)" using m by force
    then have kk: "k \<noteq> k'" using Cons.prems(2) kv by auto
    have there: "(k', c') \<in> set (kv # kvs)" using m by simp
    have "fst ` set (flat_value (newKey p k) c) \<inter> fst ` set (flat_value (newKey p k') c') = {}"
      using here there kk by (rule Cons.prems(3))
    then show False using n1 n3 by blast
  qed
  have "flat_fields p (kv # kvs) = flat_value (newKey p k) c @ flat_fields p kvs"
    by (simp add: kv)
  then show ?case using d1 d2 d3 by (simp only: map_append distinct_append)
qed

lemma flat_step:
  assumes dk: "distinct (map fst kvs)" and pf: "plain_fields kvs"
    and ch: "child v = map_of kvs" and co: "composite v"
    and ps: "list_all plain_key ps"
    and IH: "\<And>k c qs. (k, c) \<in> set kvs \<Longrightarrow> list_all plain_key qs \<Longrightarrow>
               set (flat_value (dotted qs) c) = (\<lambda>(ks, x). (dotted (qs @ ks), x)) ` leaves c
               \<and> distinct (map fst (flat_value (dotted qs) c))"
  shows "set (flat_fields (dotted ps) kvs) = (\<lambda>(ks, x). (dotted (ps @ ks), x)) ` leaves v
       \<and> distinct (map fst (flat_fields (dotted ps) kvs))"
proof -
  have nk: "newKey (dotted ps) k = dotted (ps @ [k])" for k
    by (rule newKey_dotted [OF ps])
  have pk: "plain_key k \<and> plain_value c" if "(k, c) \<in> set kvs" for k c
    using pf that by (auto simp: plain_fields_iff)
  have each: "set (flat_value (newKey (dotted ps) k) c)
                = (\<lambda>(ks, x). (dotted (ps @ k # ks), x)) ` leaves c
              \<and> distinct (map fst (flat_value (newKey (dotted ps) k) c))"
    if "(k, c) \<in> set kvs" for k c
  proof -
    have "list_all plain_key (ps @ [k])" using ps pk [OF that] by simp
    from IH [OF that this] show ?thesis unfolding nk by simp
  qed
  have mem: "e \<in> set (flat_fields (dotted ps) kvs)
      \<longleftrightarrow> (\<exists>k c ks x. (k, c) \<in> set kvs \<and> (ks, x) \<in> leaves c
             \<and> e = (dotted (ps @ k # ks), x))" for e
  proof -
    have "e \<in> set (flat_fields (dotted ps) kvs)
      \<longleftrightarrow> (\<exists>k c. (k, c) \<in> set kvs \<and> e \<in> set (flat_value (newKey (dotted ps) k) c))"
      unfolding flat_fields_set by blast
    also have "\<dots> \<longleftrightarrow> (\<exists>k c. (k, c) \<in> set kvs
                     \<and> e \<in> (\<lambda>(ks, x). (dotted (ps @ k # ks), x)) ` leaves c)"
      by (simp add: each [THEN conjunct1] cong: conj_cong)
    also have "\<dots> \<longleftrightarrow> (\<exists>k c ks x. (k, c) \<in> set kvs \<and> (ks, x) \<in> leaves c
             \<and> e = (dotted (ps @ k # ks), x))"
      by (simp add: image_iff Bex_def; blast)
    finally show ?thesis .
  qed
  have lv: "(ks', x) \<in> leaves v
      \<longleftrightarrow> (\<exists>k c ks. (k, c) \<in> set kvs \<and> (ks, x) \<in> leaves c \<and> ks' = k # ks)" for ks' x
    unfolding leaves_fields [OF dk ch co] by force
  have img: "e \<in> (\<lambda>(ks, x). (dotted (ps @ ks), x)) ` leaves v
      \<longleftrightarrow> (\<exists>ks' x. (ks', x) \<in> leaves v \<and> e = (dotted (ps @ ks'), x))" for e
    by (simp add: image_iff Bex_def; blast)
  have s: "set (flat_fields (dotted ps) kvs)
      = (\<lambda>(ks, x). (dotted (ps @ ks), x)) ` leaves v"
  proof (rule set_eqI)
    fix e
    show "e \<in> set (flat_fields (dotted ps) kvs)
      \<longleftrightarrow> e \<in> (\<lambda>(ks, x). (dotted (ps @ ks), x)) ` leaves v"
      unfolding mem img lv by blast
  qed
  have d: "distinct (map fst (flat_fields (dotted ps) kvs))"
  proof (rule flat_fields_distinct)
    show "\<And>k c. (k, c) \<in> set kvs \<Longrightarrow> distinct (map fst (flat_value (newKey (dotted ps) k) c))"
      using each by simp
    show "distinct (map fst kvs)" by (rule dk)
    show "fst ` set (flat_value (newKey (dotted ps) k) c)
            \<inter> fst ` set (flat_value (newKey (dotted ps) k') c') = {}"
      if m: "(k, c) \<in> set kvs" and m': "(k', c') \<in> set kvs" and ne: "k \<noteq> k'" for k c k' c'
    proof (rule ccontr)
      assume "fst ` set (flat_value (newKey (dotted ps) k) c)
            \<inter> fst ` set (flat_value (newKey (dotted ps) k') c') \<noteq> {}"
      then obtain n where n1: "n \<in> fst ` set (flat_value (newKey (dotted ps) k) c)"
        and n2: "n \<in> fst ` set (flat_value (newKey (dotted ps) k') c')" by blast
      from n1 obtain ks x where l: "(ks, x) \<in> leaves c" and e1: "n = dotted (ps @ k # ks)"
        unfolding each [OF m, THEN conjunct1] by (auto simp: image_iff)
      from n2 obtain ks' x' where l': "(ks', x') \<in> leaves c'" and e2: "n = dotted (ps @ k' # ks')"
        unfolding each [OF m', THEN conjunct1] by (auto simp: image_iff)
      have e: "dotted (ps @ k # ks) = dotted (ps @ k' # ks')" using e1 e2 by simp
      have p1: "list_all plain_key ks"
        using value_at_plain [of c ks x] pk [OF m] l by (simp add: leaves_def)
      have p2: "list_all plain_key ks'"
        using value_at_plain [of c' ks' x'] pk [OF m'] l' by (simp add: leaves_def)
      have "ps @ k # ks = ps @ k' # ks'"
        using e ps p1 p2 pk [OF m] pk [OF m'] by (intro dotted_inj) simp_all
      then show False using ne by simp
    qed
  qed
  show ?thesis using s d by simp
qed

lemma flat_value_leaves:
  "plain_value v \<Longrightarrow> list_all plain_key ps \<Longrightarrow>
     set (flat_value (dotted ps) v) = (\<lambda>(ks, x). (dotted (ps @ ks), x)) ` leaves v
     \<and> distinct (map fst (flat_value (dotted ps) v))"
proof (induction v arbitrary: ps)
  case (JArr xs)
  show ?case
  proof (cases xs)
    case Nil
    then show ?thesis by (simp add: leaves_innermost)
  next
    case (Cons y ys)
    have fv: "flat_value (dotted ps) (JArr xs) = flat_fields (dotted ps) (indexed 0 xs)"
      using Cons flat_items_indexed [of "dotted ps" 0 xs] by simp
    have "set (flat_fields (dotted ps) (indexed 0 xs))
            = (\<lambda>(ks, x). (dotted (ps @ ks), x)) ` leaves (JArr xs)
          \<and> distinct (map fst (flat_fields (dotted ps) (indexed 0 xs)))"
    proof (rule flat_step)
      show "distinct (map fst (indexed 0 xs))" by (rule indexed_distinct)
      show "plain_fields (indexed 0 xs)" using JArr.prems(1) by (simp add: plain_fields_indexed)
      show "child (JArr xs) = map_of (indexed 0 xs)" by (rule ext) (rule child_indexed)
      show "composite (JArr xs)" using Cons by simp
      show "list_all plain_key ps" by (rule JArr.prems(2))
      fix k c qs
      assume m: "(k, c) \<in> set (indexed 0 xs)" and q: "list_all plain_key qs"
      have "c \<in> set (map snd (indexed 0 xs))" using m by force
      then have cx: "c \<in> set xs" unfolding indexed_values .
      have "plain_value c" using JArr.prems(1) cx by (simp add: plain_items_iff)
      from JArr.IH [OF cx this q]
      show "set (flat_value (dotted qs) c) = (\<lambda>(ks, x). (dotted (qs @ ks), x)) ` leaves c
               \<and> distinct (map fst (flat_value (dotted qs) c))" .
    qed
    then show ?thesis unfolding fv .
  qed
next
  case (JObj kvs)
  show ?case
  proof (cases kvs)
    case Nil
    then show ?thesis by (simp add: leaves_innermost)
  next
    case (Cons y ys)
    have fv: "flat_value (dotted ps) (JObj kvs) = flat_fields (dotted ps) kvs"
      using Cons by simp
    have "set (flat_fields (dotted ps) kvs)
            = (\<lambda>(ks, x). (dotted (ps @ ks), x)) ` leaves (JObj kvs)
          \<and> distinct (map fst (flat_fields (dotted ps) kvs))"
    proof (rule flat_step)
      show "distinct (map fst kvs)" using JObj.prems(1) by simp
      show "plain_fields kvs" using JObj.prems(1) by simp
      show "child (JObj kvs) = map_of kvs" by (rule ext) simp
      show "composite (JObj kvs)" using Cons by simp
      show "list_all plain_key ps" by (rule JObj.prems(2))
      fix k c qs
      assume m: "(k, c) \<in> set kvs" and q: "list_all plain_key qs"
      have s: "c \<in> Basic_BNFs.snds (k, c)" by simp
      have "plain_value c" using JObj.prems(1) m by (auto simp: plain_fields_iff)
      from JObj.IH [OF m s this q]
      show "set (flat_value (dotted qs) c) = (\<lambda>(ks, x). (dotted (qs @ ks), x)) ` leaves c
               \<and> distinct (map fst (flat_value (dotted qs) c))" .
    qed
    then show ?thesis unfolding fv .
  qed
qed (simp_all add: leaves_innermost)

lemma map_of_upsert: "map_of (upsert k v m) = (map_of m)(k \<mapsto> v)"
  by (induction m) (auto simp: fun_eq_iff)

lemma set_upsert: "set (upsert k v m) \<subseteq> insert (k, v) (set m)"
  by (induction m) (auto split: if_splits)

lemma field_of_step:
  "field_of (group_step (k, v) acc) n t
     = (if (n, t) = split_last_key k then Some v else field_of acc n t)"
proof -
  obtain n' t' where g: "split_last_key k = (n', t')" by (cases "split_last_key k")
  show ?thesis
    by (simp add: field_of_def group_step_def g map_of_upsert split: option.splits)
qed

lemma field_of_fold:
  "distinct (map (\<lambda>kv. split_last_key (fst kv)) paths) \<Longrightarrow>
     field_of (fold group_step paths acc) n t
       = (case map_of (map (\<lambda>kv. (split_last_key (fst kv), snd kv)) paths) (n, t) of
            Some v \<Rightarrow> Some v
          | None \<Rightarrow> field_of acc n t)"
proof (induction paths arbitrary: acc)
  case Nil
  then show ?case by simp
next
  case (Cons kv paths)
  obtain k v where kv: "kv = (k, v)" by (cases kv)
  have d: "distinct (map (\<lambda>kv. split_last_key (fst kv)) paths)" using Cons.prems by simp
  have fresh: "map_of (map (\<lambda>kv. (split_last_key (fst kv), snd kv)) paths) (split_last_key k) = None"
  proof -
    have "split_last_key k \<notin> set (map (\<lambda>kv. split_last_key (fst kv)) paths)"
      using Cons.prems kv by simp
    then have "split_last_key k \<notin> fst ` set (map (\<lambda>kv. (split_last_key (fst kv), snd kv)) paths)"
      by (simp add: image_image)
    then show ?thesis by (simp add: map_of_eq_None_iff)
  qed
  show ?case
    using Cons.IH [OF d, of "group_step (k, v) acc"] fresh
    by (auto simp: kv field_of_step split: option.splits)
qed

lemma field_of_group_paths:
  assumes "distinct (map (\<lambda>kv. split_last_key (fst kv)) paths)"
  shows "field_of (group_paths paths) n t = Some v
     \<longleftrightarrow> (\<exists>k. (k, v) \<in> set paths \<and> split_last_key k = (n, t))"
proof -
  let ?m = "map (\<lambda>kv. (split_last_key (fst kv), snd kv)) paths"
  have dm: "distinct (map fst ?m)" using assms by (simp add: comp_def)
  have "field_of (group_paths paths) n t = map_of ?m (n, t)"
    using field_of_fold [OF assms, of "[]" n t]
    by (simp add: group_paths_def field_of_def split: option.splits)
  also have "map_of ?m (n, t) = Some v \<longleftrightarrow> ((n, t), v) \<in> set ?m"
    using dm by (rule map_of_eq_Some_iff)
  also have "\<dots> \<longleftrightarrow> (\<exists>k. (k, v) \<in> set paths \<and> split_last_key k = (n, t))"
    by force
  finally show ?thesis .
qed

lemma group_step_descriptors:
  assumes "\<And>n d. (n, d) \<in> set acc \<Longrightarrow> distinct (map fst d)"
    and "(n, d) \<in> set (group_step kv acc)"
  shows "distinct (map fst d)"
proof -
  obtain k v where kv: "kv = (k, v)" by (cases kv)
  obtain n' t' where g: "split_last_key k = (n', t')" by (cases "split_last_key k")
  let ?old = "case map_of acc n' of None \<Rightarrow> [] | Some d \<Rightarrow> d"
  have old: "distinct (map fst ?old)"
    using assms(1) by (auto split: option.splits dest: map_of_SomeD)
  have "(n, d) \<in> insert (n', upsert t' v ?old) (set acc)"
    using assms(2) set_upsert [of n' "upsert t' v ?old" acc] by (auto simp: kv group_step_def g)
  then show ?thesis using assms(1) distinct_upsert [OF old] by auto
qed

lemma fold_group_descriptors:
  "(\<And>n d. (n, d) \<in> set acc \<Longrightarrow> distinct (map fst d)) \<Longrightarrow>
     (n, d) \<in> set (fold group_step paths acc) \<Longrightarrow> distinct (map fst d)"
proof (induction paths arbitrary: acc)
  case Nil
  then show ?case by simp
next
  case (Cons kv paths)
  show ?case
  proof (rule Cons.IH [of "group_step kv acc"])
    show "\<And>n d. (n, d) \<in> set (group_step kv acc) \<Longrightarrow> distinct (map fst d)"
      using group_step_descriptors [of acc _ _ kv] Cons.prems(1) by blast
    show "(n, d) \<in> set (fold group_step paths (group_step kv acc))"
      using Cons.prems(2) by simp
  qed
qed

lemma group_paths_descriptors:
  "(n, d) \<in> set (group_paths paths) \<Longrightarrow> distinct (map fst d)"
  using fold_group_descriptors [of "[]" n d paths] by (simp add: group_paths_def)

lemma plain_fields_append: "plain_fields (A @ B) \<longleftrightarrow> plain_fields A \<and> plain_fields B"
  by (induction A) auto

lemma implicit_plain:
  "plain_fields IMPLICIT_FIELDS \<and> distinct (map fst IMPLICIT_FIELDS)
   \<and> fst ` set IMPLICIT_FIELDS = {CRYPTO_VERSION_STR, SCHEMA_STR}"
  by (simp add: IMPLICIT_FIELDS_def string_type_def plain_key_def CRYPTO_VERSION_STR_def
        SCHEMA_STR_def)

lemma root_leaves:
  assumes "plain_value (JObj E)" and "E \<noteq> []"
  shows "set (flat_fields [] E) = (\<lambda>(ks, x). (dotted ks, x)) ` leaves (JObj E)"
    and "distinct (map fst (flat_fields [] E))"
proof -
  obtain e es where E: "E = e # es" using assms(2) by (cases E) auto
  have fv: "flat_value (dotted []) (JObj E) = flat_fields [] E" by (simp add: E)
  have "list_all plain_key []" by simp
  from flat_value_leaves [OF assms(1) this]
  show "set (flat_fields [] E) = (\<lambda>(ks, x). (dotted ks, x)) ` leaves (JObj E)"
    and "distinct (map fst (flat_fields [] E))"
    unfolding fv by simp_all
qed

lemma leaf_split:
  assumes "plain_value root" and "composite root" and "(ks', x) \<in> leaves root"
  shows "\<exists>ks k. ks' = ks @ [k] \<and> plain_key k \<and> list_all plain_key ks
           \<and> split_last_key (dotted ks') = (dotted ks, k) \<and> is_leaf_field root ks k x"
proof -
  have v: "value_at root ks' = Some x" and nc: "\<not> composite x"
    using assms(3) by (simp_all add: leaves_def)
  have "ks' \<noteq> []" using v nc assms(2) by auto
  then obtain ks k where s: "ks' = ks @ [k]" by (cases ks' rule: rev_cases) auto
  have p: "list_all plain_key ks'" using value_at_plain [OF assms(1) v] by simp
  then have pk: "plain_key k" and pks: "list_all plain_key ks" using s by simp_all
  have "split_last_key (dotted ks') = (dotted ks, k)"
    unfolding s by (rule split_last_dotted [OF pk])
  moreover have "is_leaf_field root ks k x" using v nc s by (simp add: is_leaf_field_def)
  ultimately show ?thesis using s pk pks by blast
qed

lemma leaf_field_path:
  assumes "plain_value root" and "is_leaf_field root ks k x"
  shows "(ks @ [k], x) \<in> leaves root \<and> split_last_key (dotted (ks @ [k])) = (dotted ks, k)"
proof -
  have v: "value_at root (ks @ [k]) = Some x" and nc: "\<not> composite x"
    using assms(2) by (simp_all add: is_leaf_field_def)
  have "plain_key k" using value_at_plain [OF assms(1) v] by simp
  then show ?thesis using v nc by (simp add: leaves_def split_last_dotted)
qed

lemma paths_split_distinct:
  assumes "plain_value (JObj E)" and "E \<noteq> []"
  shows "distinct (map (\<lambda>kv. split_last_key (fst kv)) (flat_fields [] E))"
proof -
  have co: "composite (JObj E)" using assms(2) by (cases E) auto
  note rl = root_leaves [OF assms]
  have inj: "inj_on split_last_key (set (map fst (flat_fields [] E)))"
  proof (rule inj_onI)
    fix a b
    assume a: "a \<in> set (map fst (flat_fields [] E))"
      and b: "b \<in> set (map fst (flat_fields [] E))"
      and e: "split_last_key a = split_last_key b"
    from a obtain va where "(a, va) \<in> set (flat_fields [] E)" by auto
    then obtain ka xa where la: "(ka, xa) \<in> leaves (JObj E)" and a': "a = dotted ka"
      unfolding rl(1) by auto
    from b obtain vb where "(b, vb) \<in> set (flat_fields [] E)" by auto
    then obtain kb xb where lb: "(kb, xb) \<in> leaves (JObj E)" and b': "b = dotted kb"
      unfolding rl(1) by auto
    from leaf_split [OF assms(1) co la] obtain ks k where
      sa: "ka = ks @ [k]" "list_all plain_key ks"
        "split_last_key (dotted ka) = (dotted ks, k)" by blast
    from leaf_split [OF assms(1) co lb] obtain ks2 k2 where
      sb: "kb = ks2 @ [k2]" "list_all plain_key ks2"
        "split_last_key (dotted kb) = (dotted ks2, k2)" by blast
    have "dotted ks = dotted ks2 \<and> k = k2" using e a' b' sa(3) sb(3) by simp
    then have "ks = ks2 \<and> k = k2" using dotted_inj [OF sa(2) sb(2)] by simp
    then show "a = b" using a' b' sa(1) sb(1) by simp
  qed
  have "map (\<lambda>kv. split_last_key (fst kv)) (flat_fields [] E)
      = map split_last_key (map fst (flat_fields [] E))" by simp
  then show ?thesis using rl(2) inj by (simp only: distinct_map)
qed

lemma group_field_iff:
  assumes "plain_value (JObj E)" and "E \<noteq> []"
  shows "field_of (group_paths (flat_fields [] E)) n t = Some v
     \<longleftrightarrow> (\<exists>ks. n = dotted ks \<and> is_leaf_field (JObj E) ks t v)"
proof -
  have co: "composite (JObj E)" using assms(2) by (cases E) auto
  note rl = root_leaves [OF assms]
  note f = field_of_group_paths [OF paths_split_distinct [OF assms], of n t v]
  show ?thesis
  proof
    assume "field_of (group_paths (flat_fields [] E)) n t = Some v"
    then obtain full where m: "(full, v) \<in> set (flat_fields [] E)"
      and s: "split_last_key full = (n, t)" using f by blast
    from m obtain ks' where l: "(ks', v) \<in> leaves (JObj E)" and fu: "full = dotted ks'"
      unfolding rl(1) by auto
    from leaf_split [OF assms(1) co l] obtain ks k where
      "split_last_key (dotted ks') = (dotted ks, k)" and "is_leaf_field (JObj E) ks k v"
      by blast
    then show "\<exists>ks. n = dotted ks \<and> is_leaf_field (JObj E) ks t v" using s fu by auto
  next
    assume "\<exists>ks. n = dotted ks \<and> is_leaf_field (JObj E) ks t v"
    then obtain ks where n: "n = dotted ks" and lf: "is_leaf_field (JObj E) ks t v" by blast
    note p = leaf_field_path [OF assms(1) lf]
    have "(dotted (ks @ [t]), v) \<in> set (flat_fields [] E)"
      unfolding rl(1) using p by force
    then show "field_of (group_paths (flat_fields [] E)) n t = Some v"
      using f p n by blast
  qed
qed

lemma names_iff:
  assumes "plain_value (JObj E)" and "E \<noteq> []"
  shows "n \<in> set (fst (flattenTill2ndLastKey E))
     \<longleftrightarrow> (\<exists>ks k v. n = dotted ks \<and> is_leaf_field (JObj E) ks k v)"
proof -
  have "n \<in> set (fst (flattenTill2ndLastKey E))
     \<longleftrightarrow> (\<exists>full v t. (full, v) \<in> set (flat_fields [] E) \<and> split_last_key full = (n, t))"
    unfolding flattenTill2ndLastKey_names
  proof
    assume "n \<in> (\<lambda>kv. fst (split_last_key (fst kv))) ` set (flat_fields [] E)"
    then obtain full v where "(full, v) \<in> set (flat_fields [] E)"
      and "n = fst (split_last_key full)" by auto
    then have "(full, v) \<in> set (flat_fields [] E)
        \<and> split_last_key full = (n, snd (split_last_key full))" by simp
    then show "\<exists>full v t. (full, v) \<in> set (flat_fields [] E) \<and> split_last_key full = (n, t)"
      by blast
  next
    assume "\<exists>full v t. (full, v) \<in> set (flat_fields [] E) \<and> split_last_key full = (n, t)"
    then show "n \<in> (\<lambda>kv. fst (split_last_key (fst kv))) ` set (flat_fields [] E)"
      by force
  qed
  also have "\<dots> \<longleftrightarrow> (\<exists>t v. field_of (group_paths (flat_fields [] E)) n t = Some v)"
    unfolding field_of_group_paths [OF paths_split_distinct [OF assms]] by blast
  also have "\<dots> \<longleftrightarrow> (\<exists>ks k v. n = dotted ks \<and> is_leaf_field (JObj E) ks k v)"
    unfolding group_field_iff [OF assms] by blast
  finally show ?thesis .
qed

lemma types_nth:
  assumes "j < length (fst (flattenTill2ndLastKey E))"
  shows "\<exists>d. snd (flattenTill2ndLastKey E) ! j = JObj d \<and> distinct (map fst d)
           \<and> (\<forall>k v. (k, v) \<in> set d
                \<longleftrightarrow> field_of (group_paths (flat_fields [] E))
                      (fst (flattenTill2ndLastKey E) ! j) k = Some v)"
proof -
  let ?G = "group_paths (flat_fields [] E)"
  let ?names = "sort (map fst ?G)"
  have names: "fst (flattenTill2ndLastKey E) = ?names"
    by (simp add: flattenTill2ndLastKey_def Let_def)
  have j: "j < length ?names" using assms names by simp
  then have "?names ! j \<in> set ?names" by (rule nth_mem)
  then have "?names ! j \<in> fst ` set ?G" by simp
  then obtain d where m: "(?names ! j, d) \<in> set ?G" by auto
  have mo: "map_of ?G (?names ! j) = Some d"
    using m group_paths_distinct [of "flat_fields [] E"] by simp
  have t: "snd (flattenTill2ndLastKey E) ! j = JObj d"
    using j mo by (simp add: flattenTill2ndLastKey_def Let_def)
  have dd: "distinct (map fst d)" using m by (rule group_paths_descriptors)
  have "(k, v) \<in> set d \<longleftrightarrow> field_of ?G (?names ! j) k = Some v" for k v
    using dd mo by (simp add: field_of_def)
  then show ?thesis using t dd names by simp
qed

lemma value_at_JStr: "value_at (JStr s) (as @ [k]) = None"
  by (cases as) simp_all

lemma string_type_leaf:
  "value_at string_type (ks @ [k]) = Some v \<and> \<not> composite v
     \<longleftrightarrow> ks = [] \<and> k = ''type'' \<and> v = JStr ''string''"
proof (cases ks)
  case Nil
  then show ?thesis by (auto simp: string_type_def split: if_splits)
next
  case (Cons a as)
  then show ?thesis by (auto simp: string_type_def value_at_JStr split: if_splits)
qed

lemma merged_leaf_field:
  assumes "CRYPTO_VERSION_STR \<notin> fst ` set own" and "SCHEMA_STR \<notin> fst ` set own"
  shows "is_leaf_field (JObj (IMPLICIT_FIELDS @ own)) ks k v
     \<longleftrightarrow> (ks = [CRYPTO_VERSION_STR] \<or> ks = [SCHEMA_STR]) \<and> k = ''type'' \<and> v = JStr ''string''
         \<or> is_leaf_field (JObj own) ks k v"
proof -
  have n1: "map_of own CRYPTO_VERSION_STR = None" using assms(1) by (simp add: map_of_eq_None_iff)
  have n2: "map_of own SCHEMA_STR = None" using assms(2) by (simp add: map_of_eq_None_iff)
  have ne: "CRYPTO_VERSION_STR \<noteq> SCHEMA_STR" by (simp add: CRYPTO_VERSION_STR_def SCHEMA_STR_def)
  have top: "map_of (IMPLICIT_FIELDS @ own) a
      = (if a = CRYPTO_VERSION_STR \<or> a = SCHEMA_STR then Some string_type else map_of own a)" for a
    by (simp add: IMPLICIT_FIELDS_def)
  note [simp del] = map_of_append
  have cs: "composite string_type" by (simp add: string_type_def)
  show ?thesis
  proof (cases ks)
    case Nil
    then show ?thesis using n1 n2 cs by (auto simp: is_leaf_field_def top)
  next
    case (Cons a as)
    show ?thesis
    proof (cases "a = CRYPTO_VERSION_STR \<or> a = SCHEMA_STR")
      case True
      then have "is_leaf_field (JObj (IMPLICIT_FIELDS @ own)) ks k v
         \<longleftrightarrow> value_at string_type (as @ [k]) = Some v \<and> \<not> composite v"
        by (simp add: is_leaf_field_def Cons top)
      moreover have "\<not> is_leaf_field (JObj own) ks k v"
        using True n1 n2 by (auto simp: is_leaf_field_def Cons)
      ultimately show ?thesis using True Cons by (auto simp: string_type_leaf)
    next
      case False
      then show ?thesis by (auto simp: is_leaf_field_def Cons top)
    qed
  qed
qed

lemma dotted_single: "dotted [k] = k"
  by simp

lemma single_or:
  "(\<exists>ks. n = dotted ks \<and> ((ks = [a] \<or> ks = [b]) \<and> P \<or> Q ks))
     \<longleftrightarrow> (n = a \<or> n = b) \<and> P \<or> (\<exists>ks. n = dotted ks \<and> Q ks)"
proof (intro iffI; elim exE conjE disjE)
  fix ks
  assume "n = dotted ks" and "ks = [a]" and P
  then show "(n = a \<or> n = b) \<and> P \<or> (\<exists>ks. n = dotted ks \<and> Q ks)" by simp
next
  fix ks
  assume "n = dotted ks" and "ks = [b]" and P
  then show "(n = a \<or> n = b) \<and> P \<or> (\<exists>ks. n = dotted ks \<and> Q ks)" by simp
next
  fix ks
  assume "n = dotted ks" and "Q ks"
  then show "(n = a \<or> n = b) \<and> P \<or> (\<exists>ks. n = dotted ks \<and> Q ks)" by blast
next
  assume "n = a" and P
  then have "n = dotted [a] \<and> (([a] = [a] \<or> [a] = [b]) \<and> P \<or> Q [a])" by simp
  then show "\<exists>ks. n = dotted ks \<and> ((ks = [a] \<or> ks = [b]) \<and> P \<or> Q ks)" by blast
next
  assume "n = b" and P
  then have "n = dotted [b] \<and> (([b] = [a] \<or> [b] = [b]) \<and> P \<or> Q [b])" by simp
  then show "\<exists>ks. n = dotted ks \<and> ((ks = [a] \<or> ks = [b]) \<and> P \<or> Q ks)" by blast
next
  fix ks
  assume "n = dotted ks" and "Q ks"
  then show "\<exists>ks. n = dotted ks \<and> ((ks = [a] \<or> ks = [b]) \<and> P \<or> Q ks)" by blast
qed

text \<open>
  C1, as stated, fails: the two implicit leaves are not the leading names. For the schema
  whose subject has the one leaf \<open>fname\<close>, the names are \<open>credentialSchema\<close>,
  \<open>credentialSubject.fname\<close>, \<open>cryptoVersion\<close>: \<open>cryptoVersion\<close> is last, as in the
  flattening test of the repository.
\<close>

theorem flattenSchemaObj_implicit_not_leading:
  "fst (flattenSchemaObj schema_fname)
     = [''credentialSchema'', ''credentialSubject.fname'', ''cryptoVersion'']
   \<and> CRYPTO_VERSION_STR \<notin> set (take 2 (fst (flattenSchemaObj schema_fname)))"
  by code_simp

text \<open>
  C1, amended. For every schema object (at every level its keys distinct, as those of an
  object are, not empty and without a dot; none of the top-level keys \<open>cryptoVersion\<close> or
  \<open>credentialSchema\<close>), the names returned by flattening are in strictly increasing
  lexicographic order of full dotted paths, and there is one type per name. The names
  are the two implicit leaves \<open>cryptoVersion\<close> and \<open>credentialSchema\<close> and the dotted
  paths of the schema's own leaves: the paths \<open>ks\<close> under which the schema holds a
  descriptor, a value with a field \<open>k\<close> that holds an innermost value, where a path
  follows the fields of objects and the zero-based indices of array items. The type at
  the position of a name is the descriptor object at that path, with exactly the fields
  that hold innermost values; for the implicit leaves it is \<open>{type: string}\<close>. The implicit
  leaves stand at their sorted places among the other names, not in front of them.
\<close>

theorem flattenSchemaObj_sorted:
  assumes "distinct (map fst (own_entries sch))"
    and "plain_fields (own_entries sch)"
    and "CRYPTO_VERSION_STR \<notin> fst ` set (own_entries sch)"
    and "SCHEMA_STR \<notin> fst ` set (own_entries sch)"
  shows "sorted (fst (flattenSchemaObj sch))
       \<and> distinct (fst (flattenSchemaObj sch))
       \<and> length (snd (flattenSchemaObj sch)) = length (fst (flattenSchemaObj sch))
       \<and> (\<forall>n. n \<in> set (fst (flattenSchemaObj sch))
             \<longleftrightarrow> n = CRYPTO_VERSION_STR \<or> n = SCHEMA_STR
                 \<or> (\<exists>ks k v. n = dotted ks
                       \<and> is_leaf_field (JObj (own_entries sch)) ks k v))
       \<and> (\<forall>j < length (fst (flattenSchemaObj sch)).
             \<exists>d. snd (flattenSchemaObj sch) ! j = JObj d \<and> distinct (map fst d)
               \<and> (\<forall>k v. (k, v) \<in> set d
                     \<longleftrightarrow> (fst (flattenSchemaObj sch) ! j = CRYPTO_VERSION_STR
                            \<or> fst (flattenSchemaObj sch) ! j = SCHEMA_STR)
                           \<and> k = ''type'' \<and> v = JStr ''string''
                         \<or> (\<exists>ks. fst (flattenSchemaObj sch) ! j = dotted ks
                               \<and> is_leaf_field (JObj (own_entries sch)) ks k v)))
       \<and> set (fst (flattenSchemaObj sch))
           = {CRYPTO_VERSION_STR, SCHEMA_STR}
               \<union> set (fst (flattenTill2ndLastKey (own_entries sch)))"
proof -
  let ?E = "IMPLICIT_FIELDS @ own_entries sch"
  have disj: "fst ` set (own_entries sch) \<inter> fst ` set IMPLICIT_FIELDS = {}"
    using assms(3,4) by (auto simp: IMPLICIT_FIELDS_def)
  then have merged: "assign_all (own_entries sch) IMPLICIT_FIELDS = ?E"
    using assms(1) by (rule assign_all_distinct [rotated])
  have fs: "flattenSchemaObj sch = flattenTill2ndLastKey ?E"
    by (simp add: flattenSchemaObj_def merged)
  have ne: "?E \<noteq> []" by (simp add: IMPLICIT_FIELDS_def)
  have "distinct (map fst ?E)" using assms(1) disj implicit_plain by auto
  moreover have "plain_fields ?E" using assms(2) implicit_plain by (simp add: plain_fields_append)
  ultimately have pv: "plain_value (JObj ?E)" by simp
  note ml = merged_leaf_field [OF assms(3,4)]
  have names: "n \<in> set (fst (flattenSchemaObj sch))
             \<longleftrightarrow> n = CRYPTO_VERSION_STR \<or> n = SCHEMA_STR
                 \<or> (\<exists>ks k v. n = dotted ks
                       \<and> is_leaf_field (JObj (own_entries sch)) ks k v)" for n
  proof -
    have "(\<exists>ks k v. n = dotted ks
             \<and> ((ks = [CRYPTO_VERSION_STR] \<or> ks = [SCHEMA_STR]) \<and> k = ''type''
                    \<and> v = JStr ''string''
                  \<or> is_leaf_field (JObj (own_entries sch)) ks k v))
       \<longleftrightarrow> n = CRYPTO_VERSION_STR \<or> n = SCHEMA_STR
                 \<or> (\<exists>ks k v. n = dotted ks
                       \<and> is_leaf_field (JObj (own_entries sch)) ks k v)"
    proof (intro iffI; elim exE conjE disjE)
      fix ks k v
      assume "n = dotted ks" and "ks = [CRYPTO_VERSION_STR]"
      then show "n = CRYPTO_VERSION_STR \<or> n = SCHEMA_STR
                 \<or> (\<exists>ks k v. n = dotted ks
                       \<and> is_leaf_field (JObj (own_entries sch)) ks k v)" by simp
    next
      fix ks k v
      assume "n = dotted ks" and "ks = [SCHEMA_STR]"
      then show "n = CRYPTO_VERSION_STR \<or> n = SCHEMA_STR
                 \<or> (\<exists>ks k v. n = dotted ks
                       \<and> is_leaf_field (JObj (own_entries sch)) ks k v)" by simp
    next
      fix ks k v
      assume "n = dotted ks" and "is_leaf_field (JObj (own_entries sch)) ks k v"
      then show "n = CRYPTO_VERSION_STR \<or> n = SCHEMA_STR
                 \<or> (\<exists>ks k v. n = dotted ks
                       \<and> is_leaf_field (JObj (own_entries sch)) ks k v)" by blast
    next
      assume "n = CRYPTO_VERSION_STR"
      then have "n = dotted [CRYPTO_VERSION_STR]
             \<and> (([CRYPTO_VERSION_STR] = [CRYPTO_VERSION_STR] \<or> [CRYPTO_VERSION_STR] = [SCHEMA_STR])
                    \<and> ''type'' = ''type'' \<and> JStr ''string'' = JStr ''string''
                  \<or> is_leaf_field (JObj (own_entries sch)) [CRYPTO_VERSION_STR] ''type''
                       (JStr ''string''))" by simp
      then show "\<exists>ks k v. n = dotted ks
             \<and> ((ks = [CRYPTO_VERSION_STR] \<or> ks = [SCHEMA_STR]) \<and> k = ''type''
                    \<and> v = JStr ''string''
                  \<or> is_leaf_field (JObj (own_entries sch)) ks k v)" by blast
    next
      assume "n = SCHEMA_STR"
      then have "n = dotted [SCHEMA_STR]
             \<and> (([SCHEMA_STR] = [CRYPTO_VERSION_STR] \<or> [SCHEMA_STR] = [SCHEMA_STR])
                    \<and> ''type'' = ''type'' \<and> JStr ''string'' = JStr ''string''
                  \<or> is_leaf_field (JObj (own_entries sch)) [SCHEMA_STR] ''type''
                       (JStr ''string''))" by simp
      then show "\<exists>ks k v. n = dotted ks
             \<and> ((ks = [CRYPTO_VERSION_STR] \<or> ks = [SCHEMA_STR]) \<and> k = ''type''
                    \<and> v = JStr ''string''
                  \<or> is_leaf_field (JObj (own_entries sch)) ks k v)" by blast
    next
      fix ks k v
      assume "n = dotted ks" and "is_leaf_field (JObj (own_entries sch)) ks k v"
      then show "\<exists>ks k v. n = dotted ks
             \<and> ((ks = [CRYPTO_VERSION_STR] \<or> ks = [SCHEMA_STR]) \<and> k = ''type''
                    \<and> v = JStr ''string''
                  \<or> is_leaf_field (JObj (own_entries sch)) ks k v)" by blast
    qed
    then show ?thesis unfolding fs names_iff [OF pv ne] ml .
  qed
  have types: "\<exists>d. snd (flattenSchemaObj sch) ! j = JObj d \<and> distinct (map fst d)
               \<and> (\<forall>k v. (k, v) \<in> set d
                     \<longleftrightarrow> (fst (flattenSchemaObj sch) ! j = CRYPTO_VERSION_STR
                            \<or> fst (flattenSchemaObj sch) ! j = SCHEMA_STR)
                           \<and> k = ''type'' \<and> v = JStr ''string''
                         \<or> (\<exists>ks. fst (flattenSchemaObj sch) ! j = dotted ks
                               \<and> is_leaf_field (JObj (own_entries sch)) ks k v))"
    if j: "j < length (fst (flattenSchemaObj sch))" for j
  proof -
    let ?n = "fst (flattenTill2ndLastKey ?E) ! j"
    from types_nth [OF j [unfolded fs]] obtain d where
      t: "snd (flattenTill2ndLastKey ?E) ! j = JObj d" and dd: "distinct (map fst d)"
      and f: "\<And>k v. (k, v) \<in> set d
                \<longleftrightarrow> field_of (group_paths (flat_fields [] ?E)) ?n k = Some v"
      by blast
    have "(k, v) \<in> set d
        \<longleftrightarrow> (?n = CRYPTO_VERSION_STR \<or> ?n = SCHEMA_STR) \<and> k = ''type'' \<and> v = JStr ''string''
            \<or> (\<exists>ks. ?n = dotted ks \<and> is_leaf_field (JObj (own_entries sch)) ks k v)" for k v
    proof -
      have "(\<exists>ks. ?n = dotted ks
               \<and> ((ks = [CRYPTO_VERSION_STR] \<or> ks = [SCHEMA_STR]) \<and> k = ''type''
                      \<and> v = JStr ''string''
                    \<or> is_leaf_field (JObj (own_entries sch)) ks k v))
         \<longleftrightarrow> (?n = CRYPTO_VERSION_STR \<or> ?n = SCHEMA_STR) \<and> k = ''type'' \<and> v = JStr ''string''
            \<or> (\<exists>ks. ?n = dotted ks \<and> is_leaf_field (JObj (own_entries sch)) ks k v)"
        by (rule single_or)
      then show ?thesis unfolding f group_field_iff [OF pv ne] ml .
    qed
    then show ?thesis unfolding fs using t dd by blast
  qed
  have old: "set (fst (flattenSchemaObj sch))
           = {CRYPTO_VERSION_STR, SCHEMA_STR}
               \<union> set (fst (flattenTill2ndLastKey (own_entries sch)))"
    unfolding flattenSchemaObj_def merged
    by (simp add: flattenTill2ndLastKey_names flat_fields_append image_Un flat_implicit
          del: set_map)
  have srt: "sorted (fst (flattenSchemaObj sch)) \<and> distinct (fst (flattenSchemaObj sch))
       \<and> length (snd (flattenSchemaObj sch)) = length (fst (flattenSchemaObj sch))"
    unfolding fs by (rule flattenTill2ndLastKey_sorted)
  show ?thesis using srt names types old by blast
qed

text \<open>The names of the array example: items under their zero-based indices.\<close>

lemma flattenSchemaObj_schema_array:
  "fst (flattenSchemaObj schema_array)
     = [''credentialSchema'', ''credentialStatus.id'', ''credentialStatus.revocationId'',
        ''credentialSubject.0.geo.lat'', ''credentialSubject.0.name'',
        ''credentialSubject.1.name'', ''cryptoVersion'', ''issuer.name'']"
  by code_simp

lemma flattenSchemaObj_schema_array_types:
  "snd (flattenSchemaObj schema_array) ! 3
     = JObj [(''type'', JStr ''decimalNumber''), (''minimum'', JNum (Dec (-9) 1)),
             (''decimalPlaces'', JNum (Dec 3 0))]"
  by code_simp

theorem flattenSchemaObj_sorted_witness:
  "distinct (map fst (own_entries schema_array))
   \<and> plain_fields (own_entries schema_array)
   \<and> CRYPTO_VERSION_STR \<notin> fst ` set (own_entries schema_array)
   \<and> SCHEMA_STR \<notin> fst ` set (own_entries schema_array)
   \<and> fst (flattenSchemaObj schema_array)
       = [''credentialSchema'', ''credentialStatus.id'', ''credentialStatus.revocationId'',
          ''credentialSubject.0.geo.lat'', ''credentialSubject.0.name'',
          ''credentialSubject.1.name'', ''cryptoVersion'', ''issuer.name'']
   \<and> sorted (fst (flattenSchemaObj schema_array))
   \<and> distinct (fst (flattenSchemaObj schema_array))
   \<and> length (snd (flattenSchemaObj schema_array)) = length (fst (flattenSchemaObj schema_array))
   \<and> (\<forall>n. n \<in> set (fst (flattenSchemaObj schema_array))
         \<longleftrightarrow> n = CRYPTO_VERSION_STR \<or> n = SCHEMA_STR
             \<or> (\<exists>ks k v. n = dotted ks
                   \<and> is_leaf_field (JObj (own_entries schema_array)) ks k v))
   \<and> ''credentialSubject.1.name'' = dotted [''credentialSubject'', ''1'', ''name'']
   \<and> is_leaf_field (JObj (own_entries schema_array)) [''credentialSubject'', ''1'', ''name'']
       ''type'' (JStr ''string'')
   \<and> 3 < length (fst (flattenSchemaObj schema_array))
   \<and> snd (flattenSchemaObj schema_array) ! 3
       = JObj [(''type'', JStr ''decimalNumber''), (''minimum'', JNum (Dec (-9) 1)),
               (''decimalPlaces'', JNum (Dec 3 0))]
   \<and> (\<exists>d. snd (flattenSchemaObj schema_array) ! 3 = JObj d \<and> distinct (map fst d)
         \<and> (\<forall>k v. (k, v) \<in> set d
               \<longleftrightarrow> (fst (flattenSchemaObj schema_array) ! 3 = CRYPTO_VERSION_STR
                      \<or> fst (flattenSchemaObj schema_array) ! 3 = SCHEMA_STR)
                     \<and> k = ''type'' \<and> v = JStr ''string''
                   \<or> (\<exists>ks. fst (flattenSchemaObj schema_array) ! 3 = dotted ks
                         \<and> is_leaf_field (JObj (own_entries schema_array)) ks k v)))"
proof -
  have h1: "distinct (map fst (own_entries schema_array))"
    by (simp add: schema_array_def)
  have h2: "plain_fields (own_entries schema_array)"
    by code_simp
  have h3: "CRYPTO_VERSION_STR \<notin> fst ` set (own_entries schema_array)"
    by (simp add: schema_array_def CRYPTO_VERSION_STR_def)
  have h4: "SCHEMA_STR \<notin> fst ` set (own_entries schema_array)"
    by (simp add: schema_array_def SCHEMA_STR_def)
  note t = flattenSchemaObj_sorted [OF h1 h2 h3 h4]
  have e1: "''credentialSubject.1.name'' = dotted [''credentialSubject'', ''1'', ''name'']"
    by simp
  have e2: "is_leaf_field (JObj (own_entries schema_array))
       [''credentialSubject'', ''1'', ''name''] ''type'' (JStr ''string'')"
    by code_simp
  have j: "3 < length (fst (flattenSchemaObj schema_array))"
    by (simp add: flattenSchemaObj_schema_array)
  note c1 = t [THEN conjunct1]
  note c2 = t [THEN conjunct2, THEN conjunct1]
  note c3 = t [THEN conjunct2, THEN conjunct2, THEN conjunct1]
  note c4 = t [THEN conjunct2, THEN conjunct2, THEN conjunct2, THEN conjunct1]
  note c5 = t [THEN conjunct2, THEN conjunct2, THEN conjunct2, THEN conjunct2, THEN conjunct1]
  note c5' = mp [OF spec [OF c5] j]
  show ?thesis
    by (intro conjI h1 h2 h3 h4 flattenSchemaObj_schema_array c1 c2 c3 c4 e1 e2 j
          flattenSchemaObj_schema_array_types c5')
qed

subsection \<open>From JSON schema to the internal schema\<close>

lemma digit_char_nonzero:
  assumes "0 < d" "d < 10"
  shows "digit_char d \<noteq> CHR ''0'' \<and> digit_char d \<noteq> CHR ''.'' \<and> digit_char d \<noteq> CHR ''-''"
  using digit_char_cases [OF assms(2)] assms(1)
  by (elim disjE) (simp_all add: digit_char_def)

lemma digit_char_one:
  assumes "d < 10" "digit_char d = CHR ''1''"
  shows "d = 1"
  using digit_char_cases [OF assms(1)] assms(2)
  by (elim disjE) (simp_all add: digit_char_def)

lemma hd_show_nat:
  "0 < n \<Longrightarrow> hd (show_nat n) \<noteq> CHR ''0'' \<and> hd (show_nat n) \<noteq> CHR ''.'' \<and> hd (show_nat n) \<noteq> CHR ''-''"
proof (induction n rule: show_nat.induct)
  case (1 n)
  show ?case
  proof (cases "n < 10")
    case True
    then show ?thesis using "1.prems" digit_char_nonzero [of n]
      by (subst (1 2 3) show_nat.simps) simp
  next
    case False
    then have "0 < n div 10" by simp
    then show ?thesis using "1.IH" False show_nat_nonempty [of "n div 10"]
      by (subst (1 2 3) show_nat.simps) simp
  qed
qed

lemma show_nat_one: "show_nat n = ''1'' \<Longrightarrow> n = 1"
proof -
  assume a: "show_nat n = ''1''"
  show ?thesis
  proof (cases "n < 10")
    case True
    then show ?thesis using a digit_char_one [of n] by (subst (asm) show_nat.simps) simp
  next
    case False
    then show ?thesis using a show_nat_nonempty [of "n div 10"]
      by (subst (asm) show_nat.simps) simp
  qed
qed

lemma show_nat_1: "show_nat 1 = ''1''"
  by (subst show_nat.simps) (simp add: digit_char_def)

lemma show_nat_Suc_0: "show_nat (Suc 0) = ''1''"
  using show_nat_1 by simp

lemma toString_pow10:
  assumes "1 \<le> k" "k \<le> 6"
  shows "js_toString (Dec 1 (- int k)) = ''0.'' @ replicate (k - 1) CHR ''0'' @ ''1''"
proof -
  have "nat (int k - 1) = k - 1" using assms by simp
  then show ?thesis using assms
    by (simp add: pos_toString_def show_nat_Suc_0 Let_def)
qed

lemma match_re_hd:
  "str \<noteq> [] \<Longrightarrow> hd str \<noteq> CHR ''0'' \<Longrightarrow> hd str \<noteq> CHR ''.'' \<Longrightarrow> match_re str = None"
  by (cases str) (simp_all add: match_re_def)

lemma pos_toString_hd:
  assumes "0 < s" and "\<not> (- 6 < int (length (show_nat s)) + e \<and> int (length (show_nat s)) + e \<le> 0)"
  shows "pos_toString s e \<noteq> [] \<and> hd (pos_toString s e) = hd (show_nat s)"
  using assms show_nat_nonempty [of s]
  by (auto simp: pos_toString_def Let_def exponent_part_def hd_append)

lemma match_re_small:
  assumes "0 < s" and "- 6 < int (length (show_nat s)) + e" and "int (length (show_nat s)) + e \<le> 0"
    and "match_re (pos_toString s e) = Some r"
  shows "s = 1 \<and> r = replicate (nat (- (1 + e))) CHR ''0'' @ ''1''"
proof -
  let ?ds = "show_nat s"
  let ?z = "replicate (nat (- (int (length ?ds) + e))) CHR ''0''"
  have ne: "?ds \<noteq> []" by (rule show_nat_nonempty)
  then have "0 < int (length ?ds)" by simp
  then have "\<not> 0 \<le> e" using assms(3) by linarith
  then have str: "pos_toString s e = ''0.'' @ ?z @ ?ds"
    using assms(2,3) by (simp add: pos_toString_def Let_def)
  from assms(4) have r: "r = ?z @ ?ds" and all0: "list_all (\<lambda>c. c = CHR ''0'') (butlast (?z @ ?ds))"
    and l1: "last (?z @ ?ds) = CHR ''1''"
    unfolding str by (auto simp: match_re_def split: if_splits)
  have "butlast (?z @ ?ds) = ?z @ butlast ?ds" using ne by (simp add: butlast_append)
  then have b0: "list_all (\<lambda>c. c = CHR ''0'') (butlast ?ds)" using all0 by simp
  have "butlast ?ds = []"
  proof (rule ccontr)
    assume "butlast ?ds \<noteq> []"
    then have "hd ?ds \<in> set (butlast ?ds)"
      by (metis hd_in_set butlast.simps(2) list.collapse list.sel(1) ne)
    then have "hd ?ds = CHR ''0''" using b0 by (simp add: list_all_iff)
    then show False using hd_show_nat [OF assms(1)] by simp
  qed
  then have "?ds = [last ?ds]" using ne by (metis append_butlast_last_id append_Nil)
  moreover have "last ?ds = CHR ''1''" using l1 ne by simp
  ultimately have ds1: "?ds = ''1''" by simp
  then have s1: "s = 1" by (rule show_nat_one)
  show ?thesis using s1 r ds1 by simp
qed

lemma getDecimalPlaces_Inr:
  assumes "getDecimalPlaces (Dec m e) = Inr k"
  shows "m = 1 \<and> e = - int k \<and> 1 \<le> k \<and> k \<le> 6"
proof -
  from assms obtain r where r: "match_re (js_toString (Dec m e)) = Some r" and k: "k = length r"
    by (auto simp: getDecimalPlaces_def split: option.splits)
  have mpos: "0 < m"
  proof (rule ccontr)
    assume "\<not> 0 < m"
    then consider "m = 0" | "m < 0" by linarith
    then show False
    proof cases
      case 1 then show ?thesis using r by (simp add: match_re_def)
    next
      case 2 then show ?thesis using r by (simp add: match_re_def)
    qed
  qed
  then have str: "js_toString (Dec m e) = pos_toString (nat m) e" by simp
  have sp: "0 < nat m" using mpos by simp
  let ?n = "int (length (show_nat (nat m))) + e"
  have small: "- 6 < ?n \<and> ?n \<le> 0"
  proof (rule ccontr)
    assume a: "\<not> (- 6 < ?n \<and> ?n \<le> 0)"
    have "match_re (pos_toString (nat m) e) = None"
      using pos_toString_hd [OF sp a] hd_show_nat [OF sp] by (intro match_re_hd) simp_all
    then show False using r str by simp
  qed
  have res: "nat m = 1 \<and> r = replicate (nat (- (1 + e))) CHR ''0'' @ ''1''"
    using match_re_small [OF sp _ _ r [unfolded str]] small by simp
  then have m1: "m = 1" using mpos by linarith
  have "?n = 1 + e" using res show_nat_1 by simp
  then have e: "- 7 < e \<and> e \<le> - 1" using small by linarith
  have "k = nat (- (1 + e)) + 1" using k res by simp
  then show ?thesis using m1 e by linarith
qed

lemma getDecimalPlaces_pow10:
  assumes "1 \<le> k" "k \<le> 6"
  shows "getDecimalPlaces (Dec 1 (- int k)) = Inr k"
proof -
  have "match_re (''0.'' @ replicate (k - 1) CHR ''0'' @ ''1'')
          = Some (replicate (k - 1) CHR ''0'' @ ''1'')"
    by (simp add: match_re_def butlast_append list_all_iff)
  then show ?thesis using assms
    by (simp add: getDecimalPlaces_def toString_pow10 del: js_toString.simps)
qed

lemma getDecimalPlaces_reject:
  assumes "\<forall>k. 1 \<le> k \<and> k \<le> 6 \<longrightarrow> d \<noteq> Dec 1 (- int k)"
  shows "getDecimalPlaces d
     = Inl (Error (''Needed a number with a decimal point like .1, .01, .001, etc but found ''
                       @ js_toString d))"
proof (cases "getDecimalPlaces d")
  case (Inl a)
  then show ?thesis by (auto simp: getDecimalPlaces_def split: option.splits)
next
  case (Inr k)
  obtain m e where d: "d = Dec m e" by (cases d)
  then show ?thesis using getDecimalPlaces_Inr [of m e k] Inr assms by auto
qed


lemma traverse_Inr:
  "traverse f xs = Some (Inr ys)
     \<Longrightarrow> length ys = length xs \<and> (\<forall>i<length xs. f (xs ! i) = Some (Inr (ys ! i)))"
proof (induction xs arbitrary: ys)
  case Nil
  then show ?case by simp
next
  case (Cons x xs)
  from Cons.prems obtain y ys' where fx: "f x = Some (Inr y)"
    and rest: "traverse f xs = Some (Inr ys')" and ys: "ys = y # ys'"
    by (auto split: option.splits sum.splits)
  have ih: "length ys' = length xs \<and> (\<forall>i<length xs. f (xs ! i) = Some (Inr (ys' ! i)))"
    using Cons.IH rest by blast
  show ?case
  proof (intro conjI allI impI)
    show "length ys = length (x # xs)" using ih ys by simp
  next
    fix i assume "i < length (x # xs)"
    then show "f ((x # xs) ! i) = Some (Inr (ys ! i))"
      using ih fx ys by (cases i) simp_all
  qed
qed

lemma traverse_forward:
  "length ys = length xs \<Longrightarrow> (\<forall>i<length xs. f (xs ! i) = Some (Inr (ys ! i)))
     \<Longrightarrow> traverse f xs = Some (Inr ys)"
proof (induction xs arbitrary: ys)
  case Nil
  then show ?case by simp
next
  case (Cons x xs)
  from Cons.prems(1) obtain y ys' where ys: "ys = y # ys'" by (cases ys) auto
  have fx: "f x = Some (Inr y)" using Cons.prems(2) ys by auto
  have "\<forall>i<length xs. f (xs ! i) = Some (Inr (ys' ! i))"
  proof (intro allI impI)
    fix i
    assume "i < length xs"
    then have "f ((x # xs) ! Suc i) = Some (Inr (ys ! Suc i))" using Cons.prems(2) by auto
    then show "f (xs ! i) = Some (Inr (ys' ! i))" using ys by simp
  qed
  moreover have "length ys' = length xs" using Cons.prems(1) ys by simp
  ultimately have "traverse f xs = Some (Inr ys')" by (rule Cons.IH [rotated])
  then show ?case using fx ys by simp
qed

lemma plain_node_not_null: "plain_node node typ \<Longrightarrow> node \<noteq> JNull"
  by (auto simp: plain_node_def)

lemma convert_plain:
  assumes "plain_node node typ"
  shows "convertToInternalSchemaObj ptr (Suc fuel) node opts name root
     = convert_node
         (\<lambda>v nm. convertToInternalSchemaObj ptr fuel v opts nm
                    (Some (case root of Some r \<Rightarrow> r | None \<Rightarrow> node)))
         opts name node"
  using assms plain_node_not_null [OF assms] by (simp add: plain_node_def Let_def)

lemma convert_override:
  assumes "get_field node ''$ref'' = Some (JStr rs)"
    and "map_of JSON_SCHEMA_OVERRIDE_DEFS rs = Some ov"
  shows "convertToInternalSchemaObj ptr (Suc fuel) node opts name root = Some (Inr ov)"
proof -
  have nn: "node \<noteq> JNull" using assms(1) by auto
  have "rs \<noteq> []" using assms(2) by (auto simp: JSON_SCHEMA_OVERRIDE_DEFS_def split: if_splits)
  moreover have "rs \<notin> set object_prototype_keys"
    using assms(2)
    by (auto simp: JSON_SCHEMA_OVERRIDE_DEFS_def object_prototype_keys_def split: if_splits)
  ultimately show ?thesis using assms nn by (simp add: Let_def)
qed

lemma num_of_nat_small: "1 \<le> k \<Longrightarrow> k \<le> 6 \<Longrightarrow> num_of_nat k = Dec (int k) 0"
proof -
  assume a: "1 \<le> k" "k \<le> 6"
  then have "\<not> 10 dvd int k" by presburger
  then show ?thesis using a unfolding num_of_nat_def by (subst norm_dec.simps) simp
qed

lemma num_field_num: "get_field node k = Some (JNum x) \<Longrightarrow> num_field node k = Inr (Some x)"
  by (simp add: num_field_def)

lemma num_field_none: "get_field node k = None \<Longrightarrow> num_field node k = Inr None"
  by (simp add: num_field_def)

lemma convert_integer:
  assumes "plain_node node ''integer''" and "get_field node ''minimum'' = Some (JNum m)"
  shows "convertToInternalSchemaObj ptr (Suc fuel) node opts name root
     = Some (Inr (if ge_zero m then JObj [(''type'', JStr ''positiveInteger'')]
                  else JObj [(''type'', JStr ''integer''), (''minimum'', JNum m)]))"
  using assms
  by (simp add: convert_plain [OF assms(1)] convert_node_def plain_node_def num_field_num
        parseIntegerType_def POSITIVE_INT_TYPE_def INT_TYPE_def
        del: convertToInternalSchemaObj.simps)

lemma convert_number_ok:
  assumes "plain_node node ''number''" and "get_field node ''minimum'' = Some (JNum m)"
    and "get_field node ''multipleOf'' = Some (JNum (Dec 1 (- int k)))"
    and "1 \<le> k" "k \<le> 6"
  shows "convertToInternalSchemaObj ptr (Suc fuel) node opts name root
     = Some (Inr (if ge_zero m
                  then JObj [(''type'', JStr ''positiveDecimalNumber''),
                             (''decimalPlaces'', JNum (Dec (int k) 0))]
                  else JObj [(''type'', JStr ''decimalNumber''), (''minimum'', JNum m),
                             (''decimalPlaces'', JNum (Dec (int k) 0))]))"
  using assms
  by (simp add: convert_plain [OF assms(1)] convert_node_def plain_node_def num_field_num
        parseNumberType_def POSITIVE_NUM_TYPE_def NUM_TYPE_def
        getDecimalPlaces_pow10 num_of_nat_small
        del: convertToInternalSchemaObj.simps)

lemma convert_number_reject:
  assumes "plain_node node ''number''" and "get_field node ''minimum'' = Some (JNum m)"
    and "get_field node ''multipleOf'' = Some (JNum d)"
    and "\<forall>k. 1 \<le> k \<longrightarrow> d \<noteq> Dec 1 (- int k)"
  shows "convertToInternalSchemaObj ptr (Suc fuel) node opts name root
     = Some (Inl (Error (''Needed a number with a decimal point like .1, .01, .001, etc but found ''
                           @ js_toString d)))"
proof -
  have "getDecimalPlaces d
     = Inl (Error (''Needed a number with a decimal point like .1, .01, .001, etc but found ''
                       @ js_toString d))"
    using assms(4) by (intro getDecimalPlaces_reject) simp
  then show ?thesis using assms(1-3)
    by (simp add: convert_plain [OF assms(1)] convert_node_def plain_node_def num_field_num
          parseNumberType_def del: convertToInternalSchemaObj.simps js_toString.simps)
qed

lemma convert_array:
  assumes "plain_node node ''array''" and "get_field node ''items'' = Some (JArr xs)"
    and "convertToInternalSchemaObj ptr (Suc fuel) node opts name root = Some (Inr res)"
  shows "\<exists>cs. res = JArr cs \<and> length cs = length xs
           \<and> (\<forall>i<length xs.
                 convertToInternalSchemaObj ptr fuel (xs ! i) opts
                   (createFullName name ''[object Object]'')
                   (Some (case root of Some r \<Rightarrow> r | None \<Rightarrow> node))
                 = Some (Inr (cs ! i)))"
proof -
  let ?f = "\<lambda>i. convertToInternalSchemaObj ptr fuel i opts
                   (createFullName name ''[object Object]'')
                   (Some (case root of Some r \<Rightarrow> r | None \<Rightarrow> node))"
  from assms obtain cs where t: "traverse ?f xs = Some (Inr cs)" and res: "res = JArr cs"
    by (auto simp: convert_plain [OF assms(1)] convert_node_def plain_node_def
          simp del: convertToInternalSchemaObj.simps split: option.splits sum.splits)
  show ?thesis using traverse_Inr [OF t] res by blast
qed

lemma convert_array_forward:
  assumes "plain_node node ''array''" and "get_field node ''items'' = Some (JArr xs)"
    and "length ys = length xs"
    and "\<forall>i<length xs.
           convertToInternalSchemaObj ptr fuel (xs ! i) opts
             (createFullName name ''[object Object]'')
             (Some (case root of Some r \<Rightarrow> r | None \<Rightarrow> node))
           = Some (Inr (ys ! i))"
  shows "convertToInternalSchemaObj ptr (Suc fuel) node opts name root = Some (Inr (JArr ys))"
proof -
  let ?f = "\<lambda>i. convertToInternalSchemaObj ptr fuel i opts
                   (createFullName name ''[object Object]'')
                   (Some (case root of Some r \<Rightarrow> r | None \<Rightarrow> node))"
  have t: "traverse ?f xs = Some (Inr ys)"
    using assms(3,4) by (rule traverse_forward)
  show ?thesis
    using assms(1,2) t
    by (simp add: convert_plain [OF assms(1)] convert_node_def plain_node_def
          del: convertToInternalSchemaObj.simps)
qed

lemma convert_integer_strict:
  assumes "plain_node node ''integer''" and "get_field node ''minimum'' = None"
    and "\<not> useDefaults opts"
  shows "convertToInternalSchemaObj ptr (Suc fuel) node opts name root
     = Some (Inl (Error (''No minimum was provided for key '' @ name)))"
  using assms
  by (simp add: convert_plain [OF assms(1)] convert_node_def plain_node_def num_field_none
        parseIntegerType_def del: convertToInternalSchemaObj.simps)

lemma convert_number_strict:
  assumes "plain_node node ''number''" and "num_field node ''minimum'' = Inr mn"
    and "num_field node ''multipleOf'' = Inr mo" and "mn = None \<or> mo = None"
    and "\<not> useDefaults opts"
  shows "convertToInternalSchemaObj ptr (Suc fuel) node opts name root
     = Some (Inl (Error (''both minimum and multipleOf must be provided for key '' @ name)))"
  using assms
  by (auto simp add: convert_plain [OF assms(1)] convert_node_def plain_node_def
        parseNumberType_def simp del: convertToInternalSchemaObj.simps)

text \<open>
  C6, as stated, fails for \<open>multipleOf\<close>: \<open>1 = 10\<^sup>0\<close> and \<open>1e-7 = 10\<^sup>-\<^sup>7\<close> are of the form
  \<open>10\<^sup>-\<^sup>k\<close> and both are rejected. \<open>getDecimalPlaces\<close> matches the printed number against
  \<open>0.0...01\<close>; \<open>1\<close> has no decimal point, and JavaScript prints \<open>1e-7\<close> in exponent notation.
\<close>

theorem convertToInternalSchemaObj_power_of_ten_rejected:
  "convertToInternalSchemaObj no_pointer 1 (node_number (Dec 0 0) (Dec 1 0))
       DefaultSchemaParsingOpts ''height'' None
     = Some (Inl (Error
         ''Needed a number with a decimal point like .1, .01, .001, etc but found 1''))
   \<and> convertToInternalSchemaObj no_pointer 1 (node_number (Dec 0 0) (Dec 1 (- 7)))
       DefaultSchemaParsingOpts ''height'' None
     = Some (Inl (Error
         ''Needed a number with a decimal point like .1, .01, .001, etc but found 1e-7''))"
  by code_simp

text \<open>
  C6, amended. With at least one level of fuel, for every node, parsing options, name and
  root: a \<open>$ref\<close> to \<open>#/definitions/encryptableString\<close> gives \<open>stringReversible\<close> with
  \<open>compress\<close> false, one to \<open>#/definitions/encryptableCompString\<close> with \<open>compress\<close> true;
  type \<open>integer\<close> with a minimum \<open>m\<close> gives \<open>positiveInteger\<close> if \<open>m \<ge> 0\<close> and
  \<open>integer{minimum = m}\<close> otherwise; type \<open>number\<close> with a minimum \<open>m\<close> and
  \<open>multipleOf = 10\<^sup>-\<^sup>k\<close>, \<open>1 \<le> k \<le> 6\<close>, gives \<open>positiveDecimalNumber\<close> (\<open>m \<ge> 0\<close>) or
  \<open>decimalNumber\<close> with \<open>decimalPlaces = k\<close>, and a \<open>multipleOf\<close> that is not a negative
  power of ten is rejected; a node of type \<open>array\<close> whose items are converted with the
  fuel is converted, with one level more, to the array of the converted items, item \<open>i\<close>
  at index \<open>i\<close>, and whatever it is converted to is such an array; and under strict parsing (\<open>useDefaults\<close> false) an integer
  without minimum, and a number without minimum or without \<open>multipleOf\<close>, is rejected.
\<close>

theorem convertToInternalSchemaObj_cases:
  "(get_field node ''$ref'' = Some (JStr ''#/definitions/encryptableString'')
      \<longrightarrow> convertToInternalSchemaObj ptr (Suc fuel) node opts name root
            = Some (Inr (JObj [(''type'', JStr ''stringReversible''),
                               (''compress'', JBool False)])))
   \<and> (get_field node ''$ref'' = Some (JStr ''#/definitions/encryptableCompString'')
      \<longrightarrow> convertToInternalSchemaObj ptr (Suc fuel) node opts name root
            = Some (Inr (JObj [(''type'', JStr ''stringReversible''),
                               (''compress'', JBool True)])))
   \<and> (plain_node node ''integer'' \<and> get_field node ''minimum'' = Some (JNum m)
      \<longrightarrow> convertToInternalSchemaObj ptr (Suc fuel) node opts name root
            = Some (Inr (if ge_zero m then JObj [(''type'', JStr ''positiveInteger'')]
                         else JObj [(''type'', JStr ''integer''), (''minimum'', JNum m)])))
   \<and> (plain_node node ''number'' \<and> get_field node ''minimum'' = Some (JNum m)
        \<and> get_field node ''multipleOf'' = Some (JNum (Dec 1 (- int k))) \<and> 1 \<le> k \<and> k \<le> 6
      \<longrightarrow> convertToInternalSchemaObj ptr (Suc fuel) node opts name root
            = Some (Inr (if ge_zero m
                         then JObj [(''type'', JStr ''positiveDecimalNumber''),
                                    (''decimalPlaces'', JNum (Dec (int k) 0))]
                         else JObj [(''type'', JStr ''decimalNumber''), (''minimum'', JNum m),
                                    (''decimalPlaces'', JNum (Dec (int k) 0))])))
   \<and> (plain_node node ''number'' \<and> get_field node ''minimum'' = Some (JNum m)
        \<and> get_field node ''multipleOf'' = Some (JNum d) \<and> canonical d
        \<and> (\<forall>j. 1 \<le> j \<longrightarrow> d \<noteq> Dec 1 (- int j))
      \<longrightarrow> convertToInternalSchemaObj ptr (Suc fuel) node opts name root
            = Some (Inl (Error
                (''Needed a number with a decimal point like .1, .01, .001, etc but found ''
                   @ js_toString d))))
   \<and> (plain_node node ''array'' \<and> get_field node ''items'' = Some (JArr xs)
        \<and> length ys = length xs
        \<and> (\<forall>i<length xs.
               convertToInternalSchemaObj ptr fuel (xs ! i) opts
                 (createFullName name ''[object Object]'')
                 (Some (case root of Some r \<Rightarrow> r | None \<Rightarrow> node))
               = Some (Inr (ys ! i)))
      \<longrightarrow> convertToInternalSchemaObj ptr (Suc fuel) node opts name root
            = Some (Inr (JArr ys)))
   \<and> (plain_node node ''array'' \<and> get_field node ''items'' = Some (JArr xs)
        \<and> convertToInternalSchemaObj ptr (Suc fuel) node opts name root = Some (Inr res)
      \<longrightarrow> (\<exists>cs. res = JArr cs \<and> length cs = length xs
             \<and> (\<forall>i<length xs.
                   convertToInternalSchemaObj ptr fuel (xs ! i) opts
                     (createFullName name ''[object Object]'')
                     (Some (case root of Some r \<Rightarrow> r | None \<Rightarrow> node))
                   = Some (Inr (cs ! i)))))
   \<and> (plain_node node ''integer'' \<and> get_field node ''minimum'' = None \<and> \<not> useDefaults opts
      \<longrightarrow> convertToInternalSchemaObj ptr (Suc fuel) node opts name root
            = Some (Inl (Error (''No minimum was provided for key '' @ name))))
   \<and> (plain_node node ''number'' \<and> num_field node ''minimum'' = Inr mn
        \<and> num_field node ''multipleOf'' = Inr mo \<and> (mn = None \<or> mo = None)
        \<and> \<not> useDefaults opts
      \<longrightarrow> convertToInternalSchemaObj ptr (Suc fuel) node opts name root
            = Some (Inl (Error
                (''both minimum and multipleOf must be provided for key '' @ name))))"
proof (intro conjI impI)
  assume "get_field node ''$ref'' = Some (JStr ''#/definitions/encryptableString'')"
  then show "convertToInternalSchemaObj ptr (Suc fuel) node opts name root
            = Some (Inr (JObj [(''type'', JStr ''stringReversible''),
                               (''compress'', JBool False)]))"
    by (rule convert_override) (simp add: JSON_SCHEMA_OVERRIDE_DEFS_def STR_REV_TYPE_def)
next
  assume "get_field node ''$ref'' = Some (JStr ''#/definitions/encryptableCompString'')"
  then show "convertToInternalSchemaObj ptr (Suc fuel) node opts name root
            = Some (Inr (JObj [(''type'', JStr ''stringReversible''),
                               (''compress'', JBool True)]))"
    by (rule convert_override) (simp add: JSON_SCHEMA_OVERRIDE_DEFS_def STR_REV_TYPE_def)
next
  assume "plain_node node ''integer'' \<and> get_field node ''minimum'' = Some (JNum m)"
  then show "convertToInternalSchemaObj ptr (Suc fuel) node opts name root
            = Some (Inr (if ge_zero m then JObj [(''type'', JStr ''positiveInteger'')]
                         else JObj [(''type'', JStr ''integer''), (''minimum'', JNum m)]))"
    using convert_integer by blast
next
  assume "plain_node node ''number'' \<and> get_field node ''minimum'' = Some (JNum m)
        \<and> get_field node ''multipleOf'' = Some (JNum (Dec 1 (- int k))) \<and> 1 \<le> k \<and> k \<le> 6"
  then show "convertToInternalSchemaObj ptr (Suc fuel) node opts name root
            = Some (Inr (if ge_zero m
                         then JObj [(''type'', JStr ''positiveDecimalNumber''),
                                    (''decimalPlaces'', JNum (Dec (int k) 0))]
                         else JObj [(''type'', JStr ''decimalNumber''), (''minimum'', JNum m),
                                    (''decimalPlaces'', JNum (Dec (int k) 0))]))"
    using convert_number_ok by blast
next
  assume "plain_node node ''number'' \<and> get_field node ''minimum'' = Some (JNum m)
        \<and> get_field node ''multipleOf'' = Some (JNum d) \<and> canonical d
        \<and> (\<forall>j. 1 \<le> j \<longrightarrow> d \<noteq> Dec 1 (- int j))"
  then show "convertToInternalSchemaObj ptr (Suc fuel) node opts name root
            = Some (Inl (Error
                (''Needed a number with a decimal point like .1, .01, .001, etc but found ''
                   @ js_toString d)))"
    using convert_number_reject by blast
next
  assume "plain_node node ''array'' \<and> get_field node ''items'' = Some (JArr xs)
        \<and> length ys = length xs
        \<and> (\<forall>i<length xs.
               convertToInternalSchemaObj ptr fuel (xs ! i) opts
                 (createFullName name ''[object Object]'')
                 (Some (case root of Some r \<Rightarrow> r | None \<Rightarrow> node))
               = Some (Inr (ys ! i)))"
  then show "convertToInternalSchemaObj ptr (Suc fuel) node opts name root
            = Some (Inr (JArr ys))"
    using convert_array_forward by blast
next
  assume "plain_node node ''array'' \<and> get_field node ''items'' = Some (JArr xs)
        \<and> convertToInternalSchemaObj ptr (Suc fuel) node opts name root = Some (Inr res)"
  then show "\<exists>cs. res = JArr cs \<and> length cs = length xs
             \<and> (\<forall>i<length xs.
                   convertToInternalSchemaObj ptr fuel (xs ! i) opts
                     (createFullName name ''[object Object]'')
                     (Some (case root of Some r \<Rightarrow> r | None \<Rightarrow> node))
                   = Some (Inr (cs ! i)))"
    using convert_array by blast
next
  assume "plain_node node ''integer'' \<and> get_field node ''minimum'' = None \<and> \<not> useDefaults opts"
  then show "convertToInternalSchemaObj ptr (Suc fuel) node opts name root
            = Some (Inl (Error (''No minimum was provided for key '' @ name)))"
    using convert_integer_strict by blast
next
  assume "plain_node node ''number'' \<and> num_field node ''minimum'' = Inr mn
        \<and> num_field node ''multipleOf'' = Inr mo \<and> (mn = None \<or> mo = None)
        \<and> \<not> useDefaults opts"
  then show "convertToInternalSchemaObj ptr (Suc fuel) node opts name root
            = Some (Inl (Error
                (''both minimum and multipleOf must be provided for key '' @ name)))"
    using convert_number_strict by blast
qed

lemma convert_node_array:
  "convertToInternalSchemaObj no_pointer (Suc 1) node_array DefaultSchemaParsingOpts ''arr'' None
     = Some (Inr (JArr [JObj [(''type'', JStr ''string'')],
                        JObj [(''type'', JStr ''integer''), (''minimum'', JNum (Dec (- 5) 0))]]))"
  by code_simp

theorem convertToInternalSchemaObj_cases_witness:
  "convertToInternalSchemaObj no_pointer (Suc 0)
       (JObj [(''$ref'', JStr ''#/definitions/encryptableString'')])
       DefaultSchemaParsingOpts ''SSN'' None
     = Some (Inr (JObj [(''type'', JStr ''stringReversible''), (''compress'', JBool False)]))
   \<and> convertToInternalSchemaObj no_pointer (Suc 0)
       (JObj [(''$ref'', JStr ''#/definitions/encryptableCompString'')])
       DefaultSchemaParsingOpts ''userId'' None
     = Some (Inr (JObj [(''type'', JStr ''stringReversible''), (''compress'', JBool True)]))
   \<and> convertToInternalSchemaObj no_pointer (Suc 0) (node_integer (Dec 0 0))
       DefaultSchemaParsingOpts ''rank'' None
     = Some (Inr (JObj [(''type'', JStr ''positiveInteger'')]))
   \<and> convertToInternalSchemaObj no_pointer (Suc 0) (node_integer (Dec (- 1) 2))
       DefaultSchemaParsingOpts ''score'' None
     = Some (Inr (JObj [(''type'', JStr ''integer''), (''minimum'', JNum (Dec (- 1) 2))]))
   \<and> convertToInternalSchemaObj no_pointer (Suc 0) (node_number (Dec (- 9) 1) (Dec 1 (- 3)))
       DefaultSchemaParsingOpts ''lat'' None
     = Some (Inr (JObj [(''type'', JStr ''decimalNumber''), (''minimum'', JNum (Dec (- 9) 1)),
                        (''decimalPlaces'', JNum (Dec 3 0))]))
   \<and> convertToInternalSchemaObj no_pointer (Suc 0) (node_number (Dec 0 0) (Dec 5 (- 1)))
       DefaultSchemaParsingOpts ''height'' None
     = Some (Inl (Error
         (''Needed a number with a decimal point like .1, .01, .001, etc but found ''
            @ js_toString (Dec 5 (- 1)))))
   \<and> convertToInternalSchemaObj no_pointer (Suc 1) node_array DefaultSchemaParsingOpts
       ''arr'' None
     = Some (Inr (JArr [JObj [(''type'', JStr ''string'')],
                        JObj [(''type'', JStr ''integer''),
                              (''minimum'', JNum (Dec (- 5) 0))]]))
   \<and> (\<exists>cs. JArr [JObj [(''type'', JStr ''string'')],
                  JObj [(''type'', JStr ''integer''), (''minimum'', JNum (Dec (- 5) 0))]] = JArr cs
         \<and> length cs = 2
         \<and> (\<forall>i<2. convertToInternalSchemaObj no_pointer 1
                      ([JObj [(''type'', JStr ''string'')], node_integer (Dec (- 5) 0)] ! i)
                      DefaultSchemaParsingOpts (createFullName ''arr'' ''[object Object]'')
                      (Some node_array)
                    = Some (Inr (cs ! i))))
   \<and> convertToInternalSchemaObj no_pointer (Suc 0) (JObj [(''type'', JStr ''integer'')])
       DefaultSchemaParsingOpts ''rank'' None
     = Some (Inl (Error ''No minimum was provided for key rank''))
   \<and> convertToInternalSchemaObj no_pointer (Suc 0)
       (JObj [(''type'', JStr ''number''), (''minimum'', JNum (Dec 0 0))])
       DefaultSchemaParsingOpts ''height'' None
     = Some (Inl (Error ''both minimum and multipleOf must be provided for key height''))"
proof -
  note T = convertToInternalSchemaObj_cases
  have a1: "convertToInternalSchemaObj no_pointer (Suc 0)
       (JObj [(''$ref'', JStr ''#/definitions/encryptableString'')])
       DefaultSchemaParsingOpts ''SSN'' None
     = Some (Inr (JObj [(''type'', JStr ''stringReversible''), (''compress'', JBool False)]))"
    using T [where node = "JObj [(''$ref'', JStr ''#/definitions/encryptableString'')]"
               and ptr = no_pointer and fuel = 0 and opts = DefaultSchemaParsingOpts
               and name = "''SSN''" and root = None,
               THEN conjunct1]
    by (simp del: convertToInternalSchemaObj.simps)
  have a2: "convertToInternalSchemaObj no_pointer (Suc 0)
       (JObj [(''$ref'', JStr ''#/definitions/encryptableCompString'')])
       DefaultSchemaParsingOpts ''userId'' None
     = Some (Inr (JObj [(''type'', JStr ''stringReversible''), (''compress'', JBool True)]))"
    using T [where node = "JObj [(''$ref'', JStr ''#/definitions/encryptableCompString'')]"
               and ptr = no_pointer and fuel = 0 and opts = DefaultSchemaParsingOpts
               and name = "''userId''" and root = None,
               THEN conjunct2, THEN conjunct1]
    by (simp del: convertToInternalSchemaObj.simps)
  have a3: "convertToInternalSchemaObj no_pointer (Suc 0) (node_integer (Dec 0 0))
       DefaultSchemaParsingOpts ''rank'' None
     = Some (Inr (JObj [(''type'', JStr ''positiveInteger'')]))"
    using T [where node = "node_integer (Dec 0 0)" and m = "Dec 0 0"
               and ptr = no_pointer and fuel = 0 and opts = DefaultSchemaParsingOpts
               and name = "''rank''" and root = None,
               THEN conjunct2, THEN conjunct2, THEN conjunct1]
    by (simp add: node_integer_def plain_node_def del: convertToInternalSchemaObj.simps)
  have a4: "convertToInternalSchemaObj no_pointer (Suc 0) (node_integer (Dec (- 1) 2))
       DefaultSchemaParsingOpts ''score'' None
     = Some (Inr (JObj [(''type'', JStr ''integer''), (''minimum'', JNum (Dec (- 1) 2))]))"
    using T [where node = "node_integer (Dec (- 1) 2)" and m = "Dec (- 1) 2"
               and ptr = no_pointer and fuel = 0 and opts = DefaultSchemaParsingOpts
               and name = "''score''" and root = None,
               THEN conjunct2, THEN conjunct2, THEN conjunct1]
    by (simp add: node_integer_def plain_node_def del: convertToInternalSchemaObj.simps)
  have a5: "convertToInternalSchemaObj no_pointer (Suc 0) (node_number (Dec (- 9) 1) (Dec 1 (- 3)))
       DefaultSchemaParsingOpts ''lat'' None
     = Some (Inr (JObj [(''type'', JStr ''decimalNumber''), (''minimum'', JNum (Dec (- 9) 1)),
                        (''decimalPlaces'', JNum (Dec 3 0))]))"
    using T [where node = "node_number (Dec (- 9) 1) (Dec 1 (- 3))" and m = "Dec (- 9) 1"
               and k = 3 and ptr = no_pointer and fuel = 0 and opts = DefaultSchemaParsingOpts
               and name = "''lat''" and root = None,
               THEN conjunct2, THEN conjunct2, THEN conjunct2, THEN conjunct1]
    by (simp add: node_number_def plain_node_def del: convertToInternalSchemaObj.simps)
  have a6: "convertToInternalSchemaObj no_pointer (Suc 0) (node_number (Dec 0 0) (Dec 5 (- 1)))
       DefaultSchemaParsingOpts ''height'' None
     = Some (Inl (Error
         (''Needed a number with a decimal point like .1, .01, .001, etc but found ''
            @ js_toString (Dec 5 (- 1)))))"
    using T [where node = "node_number (Dec 0 0) (Dec 5 (- 1))" and m = "Dec 0 0"
               and d = "Dec 5 (- 1)" and ptr = no_pointer and fuel = 0
               and opts = DefaultSchemaParsingOpts and name = "''height''" and root = None,
               THEN conjunct2, THEN conjunct2, THEN conjunct2, THEN conjunct2, THEN conjunct1]
    by (simp add: node_number_def plain_node_def
          del: convertToInternalSchemaObj.simps js_toString.simps)
  have a7f: "convertToInternalSchemaObj no_pointer (Suc 1) node_array DefaultSchemaParsingOpts
       ''arr'' None
     = Some (Inr (JArr [JObj [(''type'', JStr ''string'')],
                        JObj [(''type'', JStr ''integer''),
                              (''minimum'', JNum (Dec (- 5) 0))]]))"
  proof -
    let ?xs = "[JObj [(''type'', JStr ''string'')], node_integer (Dec (- 5) 0)]"
    let ?ys = "[JObj [(''type'', JStr ''string'')],
                JObj [(''type'', JStr ''integer''), (''minimum'', JNum (Dec (- 5) 0))]]"
    have p: "plain_node node_array ''array''"
      by (simp add: node_array_def plain_node_def)
    have g: "get_field node_array ''items'' = Some (JArr ?xs)"
      by (simp add: node_array_def)
    have l: "length ?ys = length ?xs" by simp
    have i0: "convertToInternalSchemaObj no_pointer 1 (?xs ! 0) DefaultSchemaParsingOpts
                 (createFullName ''arr'' ''[object Object]'')
                 (Some (case None of Some r \<Rightarrow> r | None \<Rightarrow> node_array))
               = Some (Inr (?ys ! 0))"
      by code_simp
    have i1: "convertToInternalSchemaObj no_pointer 1 (?xs ! 1) DefaultSchemaParsingOpts
                 (createFullName ''arr'' ''[object Object]'')
                 (Some (case None of Some r \<Rightarrow> r | None \<Rightarrow> node_array))
               = Some (Inr (?ys ! 1))"
      by code_simp
    have items: "\<forall>i<length ?xs.
               convertToInternalSchemaObj no_pointer 1 (?xs ! i) DefaultSchemaParsingOpts
                 (createFullName ''arr'' ''[object Object]'')
                 (Some (case None of Some r \<Rightarrow> r | None \<Rightarrow> node_array))
               = Some (Inr (?ys ! i))"
    proof (intro allI impI)
      fix i
      assume "i < length ?xs"
      then have "i = 0 \<or> i = 1" by auto
      then show "convertToInternalSchemaObj no_pointer 1 (?xs ! i) DefaultSchemaParsingOpts
                 (createFullName ''arr'' ''[object Object]'')
                 (Some (case None of Some r \<Rightarrow> r | None \<Rightarrow> node_array))
               = Some (Inr (?ys ! i))"
        using i0 i1 by (elim disjE) (simp_all only:)
    qed
    note F = T [where node = node_array and xs = ?xs and ys = ?ys
               and ptr = no_pointer and fuel = 1 and opts = DefaultSchemaParsingOpts
               and name = "''arr''" and root = None,
               THEN conjunct2, THEN conjunct2, THEN conjunct2, THEN conjunct2, THEN conjunct2,
               THEN conjunct1]
    have "convertToInternalSchemaObj no_pointer (Suc 1) node_array DefaultSchemaParsingOpts
       ''arr'' None = Some (Inr (JArr ?ys))"
      by (rule mp [OF F]) (intro conjI p g l items)
    then show ?thesis .
  qed
  have a7: "\<exists>cs. JArr [JObj [(''type'', JStr ''string'')],
                  JObj [(''type'', JStr ''integer''), (''minimum'', JNum (Dec (- 5) 0))]] = JArr cs
         \<and> length cs = 2
         \<and> (\<forall>i<2. convertToInternalSchemaObj no_pointer 1
                      ([JObj [(''type'', JStr ''string'')], node_integer (Dec (- 5) 0)] ! i)
                      DefaultSchemaParsingOpts (createFullName ''arr'' ''[object Object]'')
                      (Some node_array)
                    = Some (Inr (cs ! i)))"
    using T [where node = node_array
               and xs = "[JObj [(''type'', JStr ''string'')], node_integer (Dec (- 5) 0)]"
               and res = "JArr [JObj [(''type'', JStr ''string'')],
                  JObj [(''type'', JStr ''integer''), (''minimum'', JNum (Dec (- 5) 0))]]"
               and ptr = no_pointer and fuel = 1 and opts = DefaultSchemaParsingOpts
               and name = "''arr''" and root = None,
               THEN conjunct2, THEN conjunct2, THEN conjunct2, THEN conjunct2, THEN conjunct2, THEN conjunct2, THEN conjunct1]
          convert_node_array
    by (simp add: node_array_def plain_node_def del: convertToInternalSchemaObj.simps)
  have a8: "convertToInternalSchemaObj no_pointer (Suc 0) (JObj [(''type'', JStr ''integer'')])
       DefaultSchemaParsingOpts ''rank'' None
     = Some (Inl (Error ''No minimum was provided for key rank''))"
    using T [where node = "JObj [(''type'', JStr ''integer'')]"
               and ptr = no_pointer and fuel = 0 and opts = DefaultSchemaParsingOpts
               and name = "''rank''" and root = None,
               THEN conjunct2, THEN conjunct2, THEN conjunct2, THEN conjunct2, THEN conjunct2, THEN conjunct2, THEN conjunct2, THEN conjunct1]
    by (simp add: plain_node_def DefaultSchemaParsingOpts_def
          del: convertToInternalSchemaObj.simps)
  have a9: "convertToInternalSchemaObj no_pointer (Suc 0)
       (JObj [(''type'', JStr ''number''), (''minimum'', JNum (Dec 0 0))])
       DefaultSchemaParsingOpts ''height'' None
     = Some (Inl (Error ''both minimum and multipleOf must be provided for key height''))"
    using T [where node = "JObj [(''type'', JStr ''number''), (''minimum'', JNum (Dec 0 0))]"
               and mn = "Some (Dec 0 0)" and mo = None
               and ptr = no_pointer and fuel = 0 and opts = DefaultSchemaParsingOpts
               and name = "''height''" and root = None,
               THEN conjunct2, THEN conjunct2, THEN conjunct2, THEN conjunct2, THEN conjunct2, THEN conjunct2, THEN conjunct2, THEN conjunct2]
    by (simp add: plain_node_def num_field_def DefaultSchemaParsingOpts_def
          del: convertToInternalSchemaObj.simps)
  show ?thesis by (intro conjI a1 a2 a3 a4 a5 a6 a7f a7 a8 a9)
qed

subsection \<open>A schema to and from JSON\<close>

lemma unreserved_plain: "unreserved c \<Longrightarrow> plain_char c"
  by (auto simp: unreserved_def plain_char_def)

lemma hex_digits_table:
  "list_all (\<lambda>i. hex_value (hex_digit i) = Some i \<and> hex_digit i \<noteq> CHR '','' \<and> hex_digit i \<noteq> CHR 0x0A)
     [0..<16]"
  by code_simp

lemma hex_value_digit:
  assumes "i < 16"
  shows "hex_value (hex_digit i) = Some i \<and> hex_digit i \<noteq> CHR '','' \<and> hex_digit i \<noteq> CHR 0x0A"
proof -
  have "i \<in> set [0..<16]" using assms by simp
  with hex_digits_table [unfolded list_all_iff] show ?thesis by (rule bspec)
qed

lemma of_char_div_16: "of_char c div 16 < (16::nat)"
proof -
  have "(of_char c :: nat) < 16 * 16" using nat_of_char_less_256 [of c] by simp
  then show ?thesis by (rule less_mult_imp_div_less)
qed

lemma encode_no_comma:
  "CHR '','' \<notin> set (encodeURIComponent s) \<and> CHR 0x0A \<notin> set (encodeURIComponent s)"
proof (induction s)
  case Nil
  then show ?case by simp
next
  case (Cons c cs)
  have d: "of_char c div 16 < (16::nat)" by (rule of_char_div_16)
  have m: "of_char c mod 16 < (16::nat)" by simp
  show ?case
    using Cons.IH unreserved_plain [of c] hex_value_digit [OF d] hex_value_digit [OF m]
    by (auto simp: plain_char_def)
qed

lemma decode_encode: "decodeURIComponent (encodeURIComponent s) = Inr s"
proof (induction s)
  case Nil
  then show ?case by simp
next
  case (Cons c cs)
  show ?case
  proof (cases "unreserved c")
    case True
    then have "c \<noteq> CHR ''%''" using unreserved_plain [of c] by (simp add: plain_char_def)
    then show ?thesis using True Cons.IH by simp
  next
    case False
    have d: "of_char c div 16 < (16::nat)" by (rule of_char_div_16)
    have m: "of_char c mod 16 < (16::nat)" by simp
    have "char_of (16 * (of_char c div 16) + of_char c mod 16 :: nat) = c" by simp
    then show ?thesis
      using False Cons.IH hex_value_digit [OF d] hex_value_digit [OF m] by simp
  qed
qed

lemma strip_newlines_id: "CHR 0x0A \<notin> set s \<Longrightarrow> strip_newlines s = s"
  by (induction s rule: strip_newlines.induct) auto

lemma split_meta: "split_on CHR '';'' ''application/json;'' = [''application/json'', []]"
  by simp

lemma extract_embedded:
  "extractJsonSchemaFromEmbedded parse (''data:application/json;,'' @ encodeURIComponent str)
     = (case parse str of None \<Rightarrow> Inl (Error ''SyntaxError: JSON.parse'') | Some j \<Rightarrow> Inr j)"
proof -
  let ?e = "encodeURIComponent str"
  have s: "strip_newlines (''data:application/json;,'' @ ?e) = ''data:application/json;,'' @ ?e"
    using encode_no_comma [of str] by (intro strip_newlines_id) simp
  have i: "indexOf (''data:application/json;,'' @ ?e) CHR '','' = 22"
    by (simp add: indexOf_def)
  show ?thesis
    unfolding extractJsonSchemaFromEmbedded_def s i Let_def
    by (simp add: decode_encode)
qed


lemma spread_as_partial: "spread_opts base (as_partial opts) = opts"
  by (simp add: spread_opts_def as_partial_def)

lemma new_CredentialSchema_fields:
  assumes "new_CredentialSchema ptr fuel S popts = Some (Inr cs)"
  shows "jsonSchema cs = S \<and> version cs = VERSION
       \<and> new_CredentialSchema ptr fuel S (Some (as_partial (parsingOptions cs))) = Some (Inr cs)"
proof -
  let ?p = "spread_opts DefaultSchemaParsingOpts
              (case popts of None \<Rightarrow> as_partial DefaultSchemaParsingOpts | Some po \<Rightarrow> po)"
  from assms obtain sch where
    c: "convertToInternalSchemaObj ptr fuel S ?p [] None = Some (Inr sch)"
    and v: "validate sch = Inr ()"
    and cs: "cs = \<lparr>version = VERSION, schema = sch, jsonSchema = S,
                   parsingOptions = ?p, encoder = initEncoder sch ?p\<rparr>"
    by (auto simp: new_CredentialSchema_def Let_def split: option.splits sum.splits)
  have p: "parsingOptions cs = ?p" using cs by simp
  have "new_CredentialSchema ptr fuel S (Some (as_partial ?p)) = Some (Inr cs)"
    using c v cs by (simp add: new_CredentialSchema_def spread_as_partial Let_def)
  then show ?thesis using cs p by simp
qed

text \<open>
  C5. Let the constructor accept the JSON schema \<open>S\<close> with some parsing options and return
  \<open>cs0\<close>, let \<open>cs\<close> be \<open>cs0\<close> with any version, and let \<open>S\<close> be a JSON document:
  \<open>JSON.parse (JSON.stringify S)\<close> is \<open>S\<close>. Then \<open>fromJSON (toJSON cs)\<close> returns a schema with
  the version, the internal schema object and the flattened form of \<open>cs\<close>, and with an
  encoder for the same names; it is \<open>cs\<close> itself.
\<close>

theorem schema_json_roundtrip:
  assumes "new_CredentialSchema ptr fuel S popts = Some (Inr cs0)"
    and "parse (stringify S) = Some S"
    and "cs = cs0\<lparr>version := v\<rparr>"
  shows "\<exists>cs'. fromJSON ptr fuel parse (toJSON stringify cs) = Some (Inr cs')
            \<and> version cs' = version cs \<and> schema cs' = schema cs
            \<and> flatten cs' = flatten cs
            \<and> map fst (encoders (encoder cs')) = map fst (encoders (encoder cs))
            \<and> cs' = cs"
proof -
  note f = new_CredentialSchema_fields [OF assms(1)]
  have js: "jsonSchema cs = S" and po: "parsingOptions cs = parsingOptions cs0"
    using f assms(3) by simp_all
  have id: "j_id (toJSON stringify cs)
              = ''data:application/json;,'' @ encodeURIComponent (stringify S)"
    by (simp add: toJSON_def js)
  have ex: "extractJsonSchemaFromEmbedded parse (j_id (toJSON stringify cs)) = Inr S"
    unfolding id extract_embedded using assms(2) by simp
  have "fromJSON ptr fuel parse (toJSON stringify cs) = Some (Inr cs)"
    unfolding fromJSON_def ex using f assms(3) po by (simp add: toJSON_def)
  then show ?thesis by simp
qed

lemma demo_schema_constructed:
  "new_CredentialSchema no_pointer 3 demo_json_schema None = Some (Inr demo_schema)"
  by code_simp

lemma demo_parse_stringify: "demo_parse (demo_stringify demo_json_schema) = Some demo_json_schema"
  by (simp add: demo_parse_def)

theorem schema_json_roundtrip_witness:
  "new_CredentialSchema no_pointer 3 demo_json_schema None = Some (Inr demo_schema)
   \<and> demo_parse (demo_stringify demo_json_schema) = Some demo_json_schema
   \<and> (\<exists>cs'. fromJSON no_pointer 3 demo_parse
                (toJSON demo_stringify (demo_schema\<lparr>version := ''91.329.68''\<rparr>))
              = Some (Inr cs')
            \<and> version cs' = ''91.329.68'' \<and> schema cs' = schema demo_schema
            \<and> flatten cs' = flatten demo_schema
            \<and> map fst (encoders (encoder cs')) = map fst (encoders (encoder demo_schema))
            \<and> cs' = demo_schema\<lparr>version := ''91.329.68''\<rparr>)"
  using schema_json_roundtrip
          [where parse = demo_parse and stringify = demo_stringify and v = "''91.329.68''"
             and cs = "demo_schema\<lparr>version := ''91.329.68''\<rparr>",
           OF demo_schema_constructed demo_parse_stringify refl]
        demo_schema_constructed demo_parse_stringify
  by (simp add: flatten_def)

subsection \<open>The presentation builder\<close>

lemma adapt_Some: "label p = Some lbl \<Longrightarrow> adapt ext p n = Inr (adapted_params ext p lbl n)"
  by (simp add: adapt_def adapted_params_def Let_def)

lemma cred_step_Inr:
  assumes step: "cred_step ext b (i, cred, pk) st = Inr st'"
    and lbl: "label (fs_sigParams st) = Some L"
    and same: "map_of (fs_revealedAttributes st) (int i) = map_of (revealedAttributes b) (int i)"
    and sp: "fs_sigParams st = generate ext 2 (Some (SIGNATURE_PARAMS_LABEL_BYTES ext))"
  shows "fs_sigParams st' = fs_sigParams st"
    and "fs_statements st' = fs_statements st @ [expected_statement ext b (i, cred, pk)]"
    and "fs_witnesses st' = fs_witnesses st @ [expected_witness b (i, cred, pk)]"
    and "fs_flattenedSchemas st' = fs_flattenedSchemas st @ [flatten (cred_schema cred)]"
    and "fs_credStatusAux st' = fs_credStatusAux st @ status_aux ext (i, cred, pk)"
    and "credStatus cred \<noteq> None \<longrightarrow> map_of (credStatuses b) (int i) \<noteq> None
           \<and> status_aux ext (i, cred, pk) \<noteq> []"
    and "fs_maxAttribs st' = max (fs_maxAttribs st) (length (fst (flatten (cred_schema cred))))"
    and "\<forall>j. j \<noteq> int i \<longrightarrow> map_of (fs_revealedAttributes st') j = map_of (fs_revealedAttributes st) j"
    and "list_all (\<lambda>n. n \<in> set (fst (flatten (cred_schema cred)))) (revealed_names b i cred)"
proof -
  have L: "L = SIGNATURE_PARAMS_LABEL_BYTES ext" using lbl sp by (simp add: generate_def)
  note ad = adapt_Some [OF lbl]
  let ?fl = "flatten (cred_schema cred)"
  let ?rn = "always_revealed cred (case map_of (fs_revealedAttributes st) (int i) of None \<Rightarrow> [] | Some r \<Rightarrow> r)"
  have rn: "?rn = revealed_names b i cred"
    by (simp add: revealed_names_def marked_names_def same)
  obtain rv un where g: "split_positions (fst ?fl) (attributeVector cred) ?rn = (rv, un)"
    by (cases "split_positions (fst ?fl) (attributeVector cred) ?rn")
  have all: "fs_sigParams st' = fs_sigParams st
     \<and> fs_statements st' = fs_statements st
          @ [StatementBbsSignature (adapted_params ext (fs_sigParams st) L (length (fst ?fl)))
               pk rv False]
     \<and> fs_witnesses st' = fs_witnesses st @ [WitnessBbsSignature (signature cred) un False]
     \<and> fs_flattenedSchemas st' = fs_flattenedSchemas st @ [?fl]
     \<and> fs_credStatusAux st' = fs_credStatusAux st @ status_aux ext (i, cred, pk)
     \<and> (credStatus cred \<noteq> None \<longrightarrow> map_of (credStatuses b) (int i) \<noteq> None
            \<and> status_aux ext (i, cred, pk) \<noteq> [])
     \<and> fs_maxAttribs st' = max (fs_maxAttribs st) (length (fst ?fl))
     \<and> fs_revealedAttributes st'
          = (case map_of (fs_revealedAttributes st) (int i) of
               None \<Rightarrow> fs_revealedAttributes st
             | Some r \<Rightarrow> upsert (int i) ?rn (fs_revealedAttributes st))
     \<and> list_all (\<lambda>n. n \<in> set (fst ?fl)) ?rn"
    using step unfolding cred_step_def getRevealedAndUnrevealed_def
    by (auto simp: Let_def ad g status_aux_def max_def split: sum.splits if_splits option.splits)
  show "fs_sigParams st' = fs_sigParams st" using all by simp
  show "fs_statements st' = fs_statements st @ [expected_statement ext b (i, cred, pk)]"
    using all g rn sp L by (simp add: expected_statement_def)
  show "fs_witnesses st' = fs_witnesses st @ [expected_witness b (i, cred, pk)]"
    using all g rn by (simp add: expected_witness_def)
  show "fs_flattenedSchemas st' = fs_flattenedSchemas st @ [flatten (cred_schema cred)]"
    using all by simp
  show "fs_credStatusAux st' = fs_credStatusAux st @ status_aux ext (i, cred, pk)"
    using all by simp
  show "credStatus cred \<noteq> None \<longrightarrow> map_of (credStatuses b) (int i) \<noteq> None
           \<and> status_aux ext (i, cred, pk) \<noteq> []"
    using all by simp
  show "fs_maxAttribs st' = max (fs_maxAttribs st) (length (fst (flatten (cred_schema cred))))"
    using all by simp
  show "\<forall>j. j \<noteq> int i \<longrightarrow> map_of (fs_revealedAttributes st') j = map_of (fs_revealedAttributes st) j"
    using all by (auto simp: map_of_upsert split: option.splits)
  show "list_all (\<lambda>n. n \<in> set (fst (flatten (cred_schema cred)))) (revealed_names b i cred)"
    using all rn by simp
qed


lemma cred_loop:
  assumes "fold_err (cred_step ext b) (enumerate k cs) st = Inr st'"
    and "fs_sigParams st = generate ext 2 (Some (SIGNATURE_PARAMS_LABEL_BYTES ext))"
    and "\<forall>j. int k \<le> j \<longrightarrow>
           map_of (fs_revealedAttributes st) j = map_of (revealedAttributes b) j"
  shows "fs_sigParams st' = fs_sigParams st
     \<and> fs_statements st' = fs_statements st @ map (expected_statement ext b) (enumerate k cs)
     \<and> fs_witnesses st' = fs_witnesses st @ map (expected_witness b) (enumerate k cs)
     \<and> fs_flattenedSchemas st'
          = fs_flattenedSchemas st @ map (\<lambda>(cred, pk). flatten (cred_schema cred)) cs
     \<and> fs_credStatusAux st'
          = fs_credStatusAux st @ concat (map (status_aux ext) (enumerate k cs))
     \<and> (\<forall>(i, cred, pk) \<in> set (enumerate k cs).
           credStatus cred \<noteq> None \<longrightarrow>
             map_of (credStatuses b) (int i) \<noteq> None \<and> status_aux ext (i, cred, pk) \<noteq> [])
     \<and> fs_maxAttribs st'
          = fold max (map (\<lambda>(cred, pk). length (fst (flatten (cred_schema cred)))) cs)
              (fs_maxAttribs st)
     \<and> (\<forall>(i, cred, pk) \<in> set (enumerate k cs).
           list_all (\<lambda>n. n \<in> set (fst (flatten (cred_schema cred)))) (revealed_names b i cred))"
  using assms
proof (induction cs arbitrary: k st)
  case Nil
  then show ?case by simp
next
  case (Cons c cs)
  obtain cred pk where c: "c = (cred, pk)" by (cases c)
  from Cons.prems(1) obtain st1 where
    s1: "cred_step ext b (k, cred, pk) st = Inr st1"
    and rest: "fold_err (cred_step ext b) (enumerate (Suc k) cs) st1 = Inr st'"
    by (auto simp: c split: sum.splits)
  have lbl: "label (fs_sigParams st) = Some (SIGNATURE_PARAMS_LABEL_BYTES ext)"
    using Cons.prems(2) by (simp add: generate_def)
  have same: "map_of (fs_revealedAttributes st) (int k) = map_of (revealedAttributes b) (int k)"
    using Cons.prems(3) by simp
  note step = cred_step_Inr [OF s1 lbl same Cons.prems(2)]
  have sp1: "fs_sigParams st1 = generate ext 2 (Some (SIGNATURE_PARAMS_LABEL_BYTES ext))"
    using step(1) Cons.prems(2) by simp
  have same1: "\<forall>j. int (Suc k) \<le> j \<longrightarrow>
           map_of (fs_revealedAttributes st1) j = map_of (revealedAttributes b) j"
    using step(8) Cons.prems(3) by auto
  note ih = Cons.IH [OF rest sp1 same1]
  show ?case
    using ih step(1-7) step(9) by (simp add: c max.commute)
qed

lemma status_step_Inr:
  assumes "status_step b fl (i, t, enc) (sts, wits, metas) = Inr res"
  shows "res = (sts @ [expected_accum_statement b (i, t, enc)],
                wits @ [expected_accum_witness b (i, t, enc)],
                metas @ [status_meta fl (length sts, i, t, enc)])
       \<and> i < length fl
       \<and> (\<exists>wit acc pk extra. map_of (credStatuses b) (int i) = Some (wit, acc, pk, extra)
             \<and> (t = MEM_CHECK_STR \<longleftrightarrow> is_membership wit))"
  using assms unfolding status_step_def
  by (auto simp: expected_accum_statement_def expected_accum_witness_def status_meta_def
        accum_statement_def accum_witness_def nth_opt_def Let_def
        split: option.splits sum.splits if_splits AccumulatorWitness.splits prod.splits)

lemma status_loop:
  assumes "fold_err (status_step b fl) aux (sts, wits, metas) = Inr res"
  shows "res = (sts @ map (expected_accum_statement b) aux,
                wits @ map (expected_accum_witness b) aux,
                metas @ map (status_meta fl) (enumerate (length sts) aux))
       \<and> (\<forall>(i, t, enc) \<in> set aux. i < length fl
             \<and> (\<exists>wit acc pk extra. map_of (credStatuses b) (int i) = Some (wit, acc, pk, extra)
                   \<and> (t = MEM_CHECK_STR \<longleftrightarrow> is_membership wit)))"
  using assms
proof (induction aux arbitrary: sts wits metas)
  case Nil
  then show ?case by simp
next
  case (Cons a aux)
  obtain i t enc where a: "a = (i, t, enc)" by (cases a)
  from Cons.prems obtain r1 where
    s1: "status_step b fl (i, t, enc) (sts, wits, metas) = Inr r1"
    and rest: "fold_err (status_step b fl) aux r1 = Inr res"
    by (auto simp: a split: sum.splits)
  note st = status_step_Inr [OF s1]
  have r1: "r1 = (sts @ [expected_accum_statement b (i, t, enc)],
                wits @ [expected_accum_witness b (i, t, enc)],
                metas @ [status_meta fl (length sts, i, t, enc)])" using st by simp
  note ih = Cons.IH [OF rest [unfolded r1]]
  show ?case using ih st by (simp add: a)
qed

lemma index_from_range:
  "0 \<le> k \<Longrightarrow> (x \<notin> set xs \<longrightarrow> index_from k xs x = - 1)
     \<and> (x \<in> set xs \<longrightarrow> k \<le> index_from k xs x \<and> index_from k xs x < k + int (length xs)
            \<and> xs ! nat (index_from k xs x - k) = x)"
proof (induction xs arbitrary: k)
  case Nil
  then show ?case by simp
next
  case (Cons y ys)
  show ?case
  proof (cases "y = x")
    case True
    then show ?thesis using Cons.prems by simp
  next
    case False
    have k1: "0 \<le> k + 1" using Cons.prems by simp
    note ih = Cons.IH [OF k1]
    show ?thesis
    proof (intro conjI impI)
      assume "x \<notin> set (y # ys)"
      then show "index_from k (y # ys) x = - 1" using ih False by simp
    next
      assume "x \<in> set (y # ys)"
      then have xin: "x \<in> set ys" using False by simp
      then have f: "k + 1 \<le> index_from (k + 1) ys x"
        "index_from (k + 1) ys x < k + 1 + int (length ys)"
        "ys ! nat (index_from (k + 1) ys x - (k + 1)) = x" using ih by simp_all
      show "k \<le> index_from k (y # ys) x" using f False by simp
      show "index_from k (y # ys) x < k + int (length (y # ys))" using f False by simp
      have "nat (index_from (k + 1) ys x - k) = Suc (nat (index_from (k + 1) ys x - (k + 1)))"
        using f(1) by linarith
      then show "(y # ys) ! nat (index_from k (y # ys) x - k) = x" using f False by simp
    qed
  qed
qed

lemma indexOf_absent: "indexOf xs x = - 1 \<longleftrightarrow> x \<notin> set xs"
  using index_from_range [of 0 x xs] by (auto simp: indexOf_def)

lemma indexOf_present:
  "x \<in> set xs \<Longrightarrow> 0 \<le> indexOf xs x \<and> indexOf xs x < int (length xs) \<and> xs ! nat (indexOf xs x) = x"
  using index_from_range [of 0 x xs] by (auto simp: indexOf_def)

lemma resolve_loop:
  assumes "fold_err (resolve_ref fl) eql refs = Inr refs'"
  shows "refs' = refs @ map (\<lambda>(cIdx, name). (cIdx, indexOf (fst (fl ! nat cIdx)) (SUBJECT_STR @ ''.'' @ name))) eql
       \<and> (\<forall>(cIdx, name) \<in> set eql. 0 \<le> cIdx \<and> cIdx < int (length fl)
             \<and> SUBJECT_STR @ ''.'' @ name \<in> set (fst (fl ! nat cIdx)))"
  using assms
proof (induction eql arbitrary: refs)
  case Nil
  then show ?case by simp
next
  case (Cons a eql)
  obtain c name where a: "a = (c, name)" by (cases a)
  from Cons.prems obtain r1 where
    s1: "resolve_ref fl (c, name) refs = Inr r1"
    and rest: "fold_err (resolve_ref fl) eql r1 = Inr refs'"
    by (auto simp: a split: sum.splits)
  have rng: "0 \<le> c \<and> c < int (length fl)"
    and found: "indexOf (fst (fl ! nat c)) (SUBJECT_STR @ ''.'' @ name) \<noteq> - 1"
    and r1: "r1 = refs @ [(c, indexOf (fst (fl ! nat c)) (SUBJECT_STR @ ''.'' @ name))]"
    using s1 unfolding resolve_ref_def
    by (auto simp: nth_opt_def Let_def split: option.splits if_splits)
  have mem: "SUBJECT_STR @ ''.'' @ name \<in> set (fst (fl ! nat c))"
    using found indexOf_absent [of "fst (fl ! nat c)" "SUBJECT_STR @ ''.'' @ name"] by blast
  note ih = Cons.IH [OF rest [unfolded r1]]
  have eq: "refs' = refs @ map (\<lambda>(cIdx, name). (cIdx, indexOf (fst (fl ! nat cIdx)) (SUBJECT_STR @ ''.'' @ name))) (a # eql)"
    using ih by (simp add: a)
  have all: "\<forall>(cIdx, name) \<in> set (a # eql). 0 \<le> cIdx \<and> cIdx < int (length fl)
             \<and> SUBJECT_STR @ ''.'' @ name \<in> set (fst (fl ! nat cIdx))"
    using ih rng mem unfolding a by simp
  show ?case using eq all by blast
qed

lemma equality_loop:
  assumes "fold_err (equality_step fl) eqls metas = Inr metas'"
  shows "metas' = metas @ map (equality_meta fl) eqls
       \<and> (\<forall>eql \<in> set eqls. \<forall>(cIdx, name) \<in> set eql. 0 \<le> cIdx \<and> cIdx < int (length fl)
             \<and> SUBJECT_STR @ ''.'' @ name \<in> set (fst (fl ! nat cIdx)))"
  using assms
proof (induction eqls arbitrary: metas)
  case Nil
  then show ?case by simp
next
  case (Cons eql eqls)
  from Cons.prems obtain m1 where
    s1: "equality_step fl eql metas = Inr m1"
    and rest: "fold_err (equality_step fl) eqls m1 = Inr metas'"
    by (auto split: sum.splits)
  from s1 obtain refs where r: "fold_err (resolve_ref fl) eql [] = Inr refs"
    and m1: "m1 = metas @ [WitnessEquality refs]"
    by (auto simp: equality_step_def split: sum.splits)
  note rl = resolve_loop [OF r]
  have m1': "m1 = metas @ [equality_meta fl eql]" using m1 rl by (simp add: equality_meta_def)
  note ih = Cons.IH [OF rest [unfolded m1']]
  have eq: "metas' = metas @ map (equality_meta fl) (eql # eqls)" using ih by simp
  have all: "\<forall>e \<in> set (eql # eqls). \<forall>(cIdx, name) \<in> set e. 0 \<le> cIdx \<and> cIdx < int (length fl)
             \<and> SUBJECT_STR @ ''.'' @ name \<in> set (fst (fl ! nat cIdx))"
    using ih rl by simp
  show ?case using eq all by blast
qed

lemma finalize_Inr:
  assumes "finalize ext b = Inr r"
  shows "out_statements r = map (expected_statement ext b) (enumerate 0 (credentials b))
                              @ map (expected_accum_statement b) (status_creds ext b)"
    and "out_witnesses r = map (expected_witness b) (enumerate 0 (credentials b))
                              @ map (expected_accum_witness b) (status_creds ext b)"
    and "out_metaStatements r
           = map (status_meta (flattened_schemas b))
               (enumerate (length (credentials b)) (status_creds ext b))
             @ map (equality_meta (flattened_schemas b)) (attributeEqualities b)"
    and "out_sigParams r = generate ext 2 (Some (SIGNATURE_PARAMS_LABEL_BYTES ext))"
    and "out_maxAttribs r
           = fold max (map (\<lambda>(cred, pk). length (fst (flatten (cred_schema cred)))) (credentials b)) 2"
    and "\<forall>(i, cred, pk) \<in> set (enumerate 0 (credentials b)).
           credStatus cred \<noteq> None \<longrightarrow>
             map_of (credStatuses b) (int i) \<noteq> None \<and> status_aux ext (i, cred, pk) \<noteq> []"
    and "\<forall>(i, t, enc) \<in> set (status_creds ext b). i < length (credentials b)
             \<and> (\<exists>wit acc pk extra. map_of (credStatuses b) (int i) = Some (wit, acc, pk, extra)
                   \<and> (t = MEM_CHECK_STR \<longleftrightarrow> is_membership wit))"
    and "\<forall>eql \<in> set (attributeEqualities b). \<forall>(cIdx, name) \<in> set eql.
           0 \<le> cIdx \<and> cIdx < int (length (credentials b))
             \<and> SUBJECT_STR @ ''.'' @ name \<in> set (fst (flattened_schemas b ! nat cIdx))"
    and "\<forall>(i, cred, pk) \<in> set (enumerate 0 (credentials b)).
           list_all (\<lambda>n. n \<in> set (fst (flatten (cred_schema cred)))) (revealed_names b i cred)"
    and "generateUsingQuasiProofSpec ext (out_statements r) (out_metaStatements r)
           (builder_context b) (out_witnesses r) (builder_nonce b) = Inr (out_proof r)"
proof -
  let ?st0 = "\<lparr>fs_maxAttribs = 2,
                 fs_sigParams = generate ext 2 (Some (SIGNATURE_PARAMS_LABEL_BYTES ext)),
                 fs_statements = [], fs_witnesses = [], fs_flattenedSchemas = [],
                 fs_credStatusAux = [], fs_revealedAttributes = revealedAttributes b\<rparr>"
  from assms obtain st sts wits metas metas' generated where
    l1: "fold_err (cred_step ext b) (enumerate 0 (credentials b)) ?st0 = Inr st"
    and l2: "fold_err (status_step b (fs_flattenedSchemas st)) (fs_credStatusAux st)
                     (fs_statements st, fs_witnesses st, []) = Inr (sts, wits, metas)"
    and l3: "fold_err (equality_step (fs_flattenedSchemas st)) (attributeEqualities b) metas
               = Inr metas'"
    and l4: "generateUsingQuasiProofSpec ext sts metas' (builder_context b) wits
               (builder_nonce b) = Inr generated"
    and r: "r = \<lparr>out_statements = sts, out_metaStatements = metas',
                            out_witnesses = wits, out_sigParams = fs_sigParams st,
                            out_maxAttribs = fs_maxAttribs st, out_proof = generated,
                            out_builder =
                              b\<lparr>revealedAttributes := fs_revealedAttributes st\<rparr>\<rparr>"
    unfolding finalize_def Let_def by (auto split: sum.splits prod.splits)
  have c: "fs_sigParams st = generate ext 2 (Some (SIGNATURE_PARAMS_LABEL_BYTES ext))"
    "fs_statements st = map (expected_statement ext b) (enumerate 0 (credentials b))"
    "fs_witnesses st = map (expected_witness b) (enumerate 0 (credentials b))"
    "fs_flattenedSchemas st = flattened_schemas b"
    "fs_credStatusAux st = status_creds ext b"
    "\<forall>(i, cred, pk) \<in> set (enumerate 0 (credentials b)).
           credStatus cred \<noteq> None \<longrightarrow>
             map_of (credStatuses b) (int i) \<noteq> None \<and> status_aux ext (i, cred, pk) \<noteq> []"
    "fs_maxAttribs st
       = fold max (map (\<lambda>(cred, pk). length (fst (flatten (cred_schema cred)))) (credentials b)) 2"
    "\<forall>(i, cred, pk) \<in> set (enumerate 0 (credentials b)).
           list_all (\<lambda>n. n \<in> set (fst (flatten (cred_schema cred)))) (revealed_names b i cred)"
    using cred_loop [OF l1] by (simp_all add: flattened_schemas_def status_creds_def)
  note s = status_loop [OF l2 [unfolded c]]
  have lenfl: "length (flattened_schemas b) = length (credentials b)"
    by (simp add: flattened_schemas_def)
  note e = equality_loop [OF l3 [unfolded c]]
  show "out_statements r = map (expected_statement ext b) (enumerate 0 (credentials b))
                              @ map (expected_accum_statement b) (status_creds ext b)"
    using r s by simp
  show "out_witnesses r = map (expected_witness b) (enumerate 0 (credentials b))
                              @ map (expected_accum_witness b) (status_creds ext b)"
    using r s by simp
  show "out_metaStatements r
           = map (status_meta (flattened_schemas b))
               (enumerate (length (credentials b)) (status_creds ext b))
             @ map (equality_meta (flattened_schemas b)) (attributeEqualities b)"
    using r s e by simp
  show "out_sigParams r = generate ext 2 (Some (SIGNATURE_PARAMS_LABEL_BYTES ext))"
    using r c by simp
  show "out_maxAttribs r
           = fold max (map (\<lambda>(cred, pk). length (fst (flatten (cred_schema cred)))) (credentials b)) 2"
    using r c by simp
  show "\<forall>(i, cred, pk) \<in> set (enumerate 0 (credentials b)).
           credStatus cred \<noteq> None \<longrightarrow>
             map_of (credStatuses b) (int i) \<noteq> None \<and> status_aux ext (i, cred, pk) \<noteq> []"
    using c by simp
  show "\<forall>(i, t, enc) \<in> set (status_creds ext b). i < length (credentials b)
             \<and> (\<exists>wit acc pk extra. map_of (credStatuses b) (int i) = Some (wit, acc, pk, extra)
                   \<and> (t = MEM_CHECK_STR \<longleftrightarrow> is_membership wit))"
    using s lenfl by simp
  show "\<forall>eql \<in> set (attributeEqualities b). \<forall>(cIdx, name) \<in> set eql.
           0 \<le> cIdx \<and> cIdx < int (length (credentials b))
             \<and> SUBJECT_STR @ ''.'' @ name \<in> set (fst (flattened_schemas b ! nat cIdx))"
    using e lenfl by simp
  show "\<forall>(i, cred, pk) \<in> set (enumerate 0 (credentials b)).
           list_all (\<lambda>n. n \<in> set (fst (flatten (cred_schema cred)))) (revealed_names b i cred)"
    using c by simp
  show "generateUsingQuasiProofSpec ext (out_statements r) (out_metaStatements r)
           (builder_context b) (out_witnesses r) (builder_nonce b) = Inr (out_proof r)"
    using l4 r by simp
qed

lemma demo_finalize: "finalize demo_ext demo_marked = Inr demo_finalized"
  by code_simp

text \<open>
  With \<open>fname\<close> of the first credential revealed and in an equality, the loops of
  \<open>finalize\<close> end without an error and the proof generation throws.
\<close>

lemma demo_finalize_revealed_equal:
  "finalize demo_ext demo_revealed_equal = Inl (Error ''InvalidProofSpec'')"
  by code_simp

lemma demo_marked_built:
  "(case markAttributesRevealed demo_builder 0 [''score''] of
      Inl err \<Rightarrow> Inl err
    | Inr b1 \<Rightarrow>
        (case addAccumInfoForCredStatus b1 1 (MembershipWitness [5]) [6] [7] JNull of
           Inl err \<Rightarrow> Inl err
         | Inr b2 \<Rightarrow> markAttributesEqual b2 [(0, ''fname''), (1, ''fname'')]))
   = Inr demo_marked"
  by code_simp

lemma demo_credentials:
  "credentials demo_marked = [(demo_cred, [3]), (demo_status_cred, [4])]"
  "credentials demo_builder = [(demo_cred, [3]), (demo_status_cred, [4])]"
  "credentials demo_mismatch = [(demo_cred, [3]), (demo_status_cred, [4])]"
  "credentials demo_unknown_name = [(demo_cred, [3]), (demo_status_cred, [4])]"
  by (simp_all add: demo_marked_def demo_builder_def demo_mismatch_def demo_unknown_name_def
        new_PresentationBuilder_def)

lemma demo_credStatus: "credStatus demo_status_cred = Some demo_status"
  by (simp add: demo_status_cred_def demo_status_def)

text \<open>
  C2. The builder of the example holds a credential whose flattened schema has seven
  names. \<open>finalize\<close> counts seven as \<open>maxAttribs\<close> and gives the signature statements
  parameters for four and for seven messages, but the parameters it holds after the loop
  are still those generated for two messages: the result of \<open>sigParams.adapt(numAttribs)\<close>
  in the branch that raises \<open>maxAttribs\<close> is dropped.
\<close>

theorem finalize_sigParams_not_adapted:
  "map_sum id (\<lambda>r. (out_maxAttribs r, supportedMessageCount (out_sigParams r),
                      map (\<lambda>(cred, pk). length (fst (flatten (cred_schema cred))))
                        (credentials demo_marked)))
     (finalize demo_ext demo_marked) = Inr (7, 2, [4, 7])"
  by code_simp

text \<open>
  C8. With two credentials in the builder, the index \<open>-1\<close> is out of range, but
  \<open>validateCredIndex\<close> compares the index with the number of credentials only: none of the
  three operations throws, and each changes the state of the builder.
\<close>

theorem validateCredIndex_negative_accepted:
  "validateCredIndex demo_builder (- 1) = Inr ()
   \<and> markAttributesRevealed demo_builder (- 1) [''fname'']
       = Inr (demo_builder\<lparr>revealedAttributes := [(- 1, [''credentialSubject.fname''])]\<rparr>)
   \<and> markAttributesEqual demo_builder [(- 1, ''fname''), (0, ''fname'')]
       = Inr (demo_builder\<lparr>attributeEqualities := [[(- 1, ''fname''), (0, ''fname'')]]\<rparr>)
   \<and> addAccumInfoForCredStatus demo_builder (- 1) (MembershipWitness [5]) [6] [7] JNull
       = Inr (demo_builder\<lparr>credStatuses := [(- 1, MembershipWitness [5], [6], [7], JNull)]\<rparr>)"
  by code_simp

lemma set_set_add: "set (set_add x xs) = insert x (set xs)"
  by (auto simp: set_add_def)

lemma set_always_revealed:
  "set (always_revealed cred ns)
     = set ns \<union> {CRED_VERSION_STR, SCHEMA_STR}
         \<union> (if credStatus cred \<noteq> None
            then {STATUS_STR @ ''.'' @ REGISTRY_ID_STR, STATUS_STR @ ''.'' @ REV_CHECK_STR}
            else {})"
  by (auto simp: always_revealed_def Let_def set_set_add)

lemma positions_mem:
  "(p, n, m) \<in> set (zip [0..<length names] (zip names msgs))
     \<longleftrightarrow> p < length names \<and> p < length msgs \<and> n = names ! p \<and> m = msgs ! p"
proof
  assume "(p, n, m) \<in> set (zip [0..<length names] (zip names msgs))"
  then show "p < length names \<and> p < length msgs \<and> n = names ! p \<and> m = msgs ! p"
    by (auto simp: in_set_zip)
next
  assume a: "p < length names \<and> p < length msgs \<and> n = names ! p \<and> m = msgs ! p"
  then have "[0..<length names] ! p = p \<and> zip names msgs ! p = (n, m)
      \<and> p < length [0..<length names] \<and> p < length (zip names msgs)" by simp
  then show "(p, n, m) \<in> set (zip [0..<length names] (zip names msgs))"
    unfolding in_set_zip by (intro exI [of _ p]) simp
qed

lemma revealed_mem:
  "(p, m) \<in> set (fst (split_positions names msgs rn))
     \<longleftrightarrow> p < length names \<and> p < length msgs \<and> names ! p \<in> set rn \<and> m = msgs ! p"
proof -
  have "(p, m) \<in> set (fst (split_positions names msgs rn))
     \<longleftrightarrow> (\<exists>n. (p, n, m) \<in> set (zip [0..<length names] (zip names msgs)) \<and> n \<in> set rn)"
    by (force simp: split_positions_def Let_def)
  then show ?thesis unfolding positions_mem by auto
qed

lemma unrevealed_mem:
  "(p, m) \<in> set (snd (split_positions names msgs rn))
     \<longleftrightarrow> p < length names \<and> p < length msgs \<and> names ! p \<notin> set rn \<and> m = msgs ! p"
proof -
  have "(p, m) \<in> set (snd (split_positions names msgs rn))
     \<longleftrightarrow> (\<exists>n. (p, n, m) \<in> set (zip [0..<length names] (zip names msgs)) \<and> n \<notin> set rn)"
    by (force simp: split_positions_def Let_def)
  then show ?thesis unfolding positions_mem by auto
qed

lemma marked_subject:
  assumes "subject_names_only b" and "n \<in> set (marked_names b i)"
  shows "take 18 n = SUBJECT_STR @ ''.''"
proof (cases "map_of (revealedAttributes b) (int i)")
  case None
  then show ?thesis using assms(2) by (simp add: marked_names_def)
next
  case (Some ns)
  then have "(int i, ns) \<in> set (revealedAttributes b)" by (rule map_of_SomeD)
  then have "list_all (\<lambda>n. take 18 n = SUBJECT_STR @ ''.'') ns"
    using assms(1) by (auto simp: subject_names_only_def list_all_iff)
  then show ?thesis using assms(2) Some by (simp add: marked_names_def list_all_iff)
qed

lemma status_names_not_marked:
  assumes "subject_names_only b"
  shows "STATUS_STR @ ''.'' @ REGISTRY_ID_STR \<notin> set (marked_names b i)
       \<and> STATUS_STR @ ''.'' @ REV_CHECK_STR \<notin> set (marked_names b i)"
  using marked_subject [OF assms, of "STATUS_STR @ ''.'' @ REGISTRY_ID_STR" i]
        marked_subject [OF assms, of "STATUS_STR @ ''.'' @ REV_CHECK_STR" i]
  by (auto simp: STATUS_STR_def REGISTRY_ID_STR_def REV_CHECK_STR_def SUBJECT_STR_def)

text \<open>
  C3. Let \<open>finalize\<close> return \<open>r\<close>, and let \<open>cred\<close> with key \<open>pk\<close> be the credential at index
  \<open>i\<close>. Statement \<open>i\<close> is a signature statement over the revealed messages and witness
  \<open>i\<close> a signature witness over the unrevealed ones, the two maps that
  \<open>getRevealedAndUnrevealed\<close> returns for the revealed names, where the names revealed are those
  marked for the credential, \<open>cryptoVersion\<close> and the embedded schema always, and
  \<open>status.id\<close> and \<open>status.revocationCheck\<close> with a status; for a builder that holds only
  names under the subject (as \<open>markAttributesRevealed\<close> stores them) the two status names
  are revealed if and only if the credential has a status. Every flattened position holds
  its scalar in exactly one of the two maps: the revealed one if its name is revealed, the
  unrevealed one otherwise.
\<close>

theorem finalize_revealed_attributes:
  assumes "finalize ext b = Inr r" and "i < length (credentials b)"
    and "credentials b ! i = (cred, pk)"
  shows "\<exists>params revealedMsgs unrevealedMsgs.
      out_statements r ! i = StatementBbsSignature params pk revealedMsgs False
    \<and> out_witnesses r ! i = WitnessBbsSignature (signature cred) unrevealedMsgs False
    \<and> getRevealedAndUnrevealed (fst (flatten (cred_schema cred))) (attributeVector cred)
          (revealed_names b i cred)
        = Inr (revealedMsgs, unrevealedMsgs)
    \<and> set (revealed_names b i cred)
        = set (marked_names b i) \<union> {CRED_VERSION_STR, SCHEMA_STR}
            \<union> (if credStatus cred \<noteq> None
               then {STATUS_STR @ ''.'' @ REGISTRY_ID_STR, STATUS_STR @ ''.'' @ REV_CHECK_STR}
               else {})
    \<and> (subject_names_only b \<longrightarrow>
         (STATUS_STR @ ''.'' @ REGISTRY_ID_STR \<in> set (revealed_names b i cred)
            \<longleftrightarrow> credStatus cred \<noteq> None)
         \<and> (STATUS_STR @ ''.'' @ REV_CHECK_STR \<in> set (revealed_names b i cred)
            \<longleftrightarrow> credStatus cred \<noteq> None))
    \<and> (\<forall>p m. (p, m) \<in> set revealedMsgs
          \<longleftrightarrow> p < length (fst (flatten (cred_schema cred))) \<and> p < length (attributeVector cred)
              \<and> fst (flatten (cred_schema cred)) ! p \<in> set (revealed_names b i cred)
              \<and> m = attributeVector cred ! p)
    \<and> (\<forall>p m. (p, m) \<in> set unrevealedMsgs
          \<longleftrightarrow> p < length (fst (flatten (cred_schema cred))) \<and> p < length (attributeVector cred)
              \<and> fst (flatten (cred_schema cred)) ! p \<notin> set (revealed_names b i cred)
              \<and> m = attributeVector cred ! p)"
proof -
  let ?names = "fst (flatten (cred_schema cred))"
  let ?g = "split_positions ?names (attributeVector cred) (revealed_names b i cred)"
  note f = finalize_Inr [OF assms(1)]
  have en: "enumerate 0 (credentials b) ! i = (i, cred, pk)"
    using assms(2,3) by (simp add: nth_enumerate_eq)
  have "enumerate 0 (credentials b) ! i \<in> set (enumerate 0 (credentials b))"
    using assms(2) by (intro nth_mem) simp
  then have mem: "(i, cred, pk) \<in> set (enumerate 0 (credentials b))"
    unfolding en .
  have found: "list_all (\<lambda>n. n \<in> set ?names) (revealed_names b i cred)"
    using bspec [OF f(9) mem] by simp
  have st: "out_statements r ! i = expected_statement ext b (i, cred, pk)"
    using f(1) assms(2) en by (simp add: nth_append)
  have wi: "out_witnesses r ! i = expected_witness b (i, cred, pk)"
    using f(2) assms(2) en by (simp add: nth_append)
  have names: "set (revealed_names b i cred)
        = set (marked_names b i) \<union> {CRED_VERSION_STR, SCHEMA_STR}
            \<union> (if credStatus cred \<noteq> None
               then {STATUS_STR @ ''.'' @ REGISTRY_ID_STR, STATUS_STR @ ''.'' @ REV_CHECK_STR}
               else {})"
    unfolding revealed_names_def by (rule set_always_revealed)
  have neq: "STATUS_STR @ ''.'' @ REGISTRY_ID_STR \<noteq> CRED_VERSION_STR
           \<and> STATUS_STR @ ''.'' @ REGISTRY_ID_STR \<noteq> SCHEMA_STR
           \<and> STATUS_STR @ ''.'' @ REV_CHECK_STR \<noteq> CRED_VERSION_STR
           \<and> STATUS_STR @ ''.'' @ REV_CHECK_STR \<noteq> SCHEMA_STR"
    by (simp add: STATUS_STR_def REGISTRY_ID_STR_def REV_CHECK_STR_def CRED_VERSION_STR_def
          SCHEMA_STR_def)
  have iff: "subject_names_only b \<longrightarrow>
         (STATUS_STR @ ''.'' @ REGISTRY_ID_STR \<in> set (revealed_names b i cred)
            \<longleftrightarrow> credStatus cred \<noteq> None)
         \<and> (STATUS_STR @ ''.'' @ REV_CHECK_STR \<in> set (revealed_names b i cred)
            \<longleftrightarrow> credStatus cred \<noteq> None)"
    using status_names_not_marked [of b i] neq unfolding names by auto
  show ?thesis
  proof (intro exI conjI)
    show "out_statements r ! i
        = StatementBbsSignature
            (adapted_params ext (generate ext 2 (Some (SIGNATURE_PARAMS_LABEL_BYTES ext)))
               (SIGNATURE_PARAMS_LABEL_BYTES ext) (length ?names))
            pk (fst ?g) False"
      using st by (simp add: expected_statement_def)
    show "out_witnesses r ! i = WitnessBbsSignature (signature cred) (snd ?g) False"
      using wi by (simp add: expected_witness_def)
    show "getRevealedAndUnrevealed ?names (attributeVector cred) (revealed_names b i cred)
        = Inr (fst ?g, snd ?g)"
      using found by (simp add: getRevealedAndUnrevealed_def)
    show "set (revealed_names b i cred)
        = set (marked_names b i) \<union> {CRED_VERSION_STR, SCHEMA_STR}
            \<union> (if credStatus cred \<noteq> None
               then {STATUS_STR @ ''.'' @ REGISTRY_ID_STR, STATUS_STR @ ''.'' @ REV_CHECK_STR}
               else {})" by (rule names)
    show "subject_names_only b \<longrightarrow>
         (STATUS_STR @ ''.'' @ REGISTRY_ID_STR \<in> set (revealed_names b i cred)
            \<longleftrightarrow> credStatus cred \<noteq> None)
         \<and> (STATUS_STR @ ''.'' @ REV_CHECK_STR \<in> set (revealed_names b i cred)
            \<longleftrightarrow> credStatus cred \<noteq> None)" by (rule iff)
    show "\<forall>p m. (p, m) \<in> set (fst ?g)
          \<longleftrightarrow> p < length ?names \<and> p < length (attributeVector cred)
              \<and> ?names ! p \<in> set (revealed_names b i cred)
              \<and> m = attributeVector cred ! p"
      by (simp add: revealed_mem)
    show "\<forall>p m. (p, m) \<in> set (snd ?g)
          \<longleftrightarrow> p < length ?names \<and> p < length (attributeVector cred)
              \<and> ?names ! p \<notin> set (revealed_names b i cred)
              \<and> m = attributeVector cred ! p"
      by (simp add: unrevealed_mem)
  qed
qed

theorem finalize_revealed_attributes_witness:
  "finalize demo_ext demo_marked = Inr demo_finalized
   \<and> 1 < length (credentials demo_marked)
   \<and> credentials demo_marked ! 1 = (demo_status_cred, [4])
   \<and> subject_names_only demo_marked
   \<and> out_statements demo_finalized ! 1
       = StatementBbsSignature (demo_params 7) [4]
           [(0, [20]), (1, [21]), (2, [22]), (6, [26])] False
   \<and> out_witnesses demo_finalized ! 1
       = WitnessBbsSignature [8] [(3, [65]), (4, [24]), (5, [11])] False
   \<and> (\<exists>params revealedMsgs unrevealedMsgs.
      out_statements demo_finalized ! 1 = StatementBbsSignature params [4] revealedMsgs False
    \<and> out_witnesses demo_finalized ! 1 = WitnessBbsSignature (signature demo_status_cred) unrevealedMsgs False
    \<and> getRevealedAndUnrevealed (fst (flatten (cred_schema demo_status_cred))) (attributeVector demo_status_cred)
          (revealed_names demo_marked 1 demo_status_cred)
        = Inr (revealedMsgs, unrevealedMsgs)
    \<and> set (revealed_names demo_marked 1 demo_status_cred)
        = set (marked_names demo_marked 1) \<union> {CRED_VERSION_STR, SCHEMA_STR}
            \<union> (if credStatus demo_status_cred \<noteq> None
               then {STATUS_STR @ ''.'' @ REGISTRY_ID_STR, STATUS_STR @ ''.'' @ REV_CHECK_STR}
               else {})
    \<and> (subject_names_only demo_marked \<longrightarrow>
         (STATUS_STR @ ''.'' @ REGISTRY_ID_STR \<in> set (revealed_names demo_marked 1 demo_status_cred)
            \<longleftrightarrow> credStatus demo_status_cred \<noteq> None)
         \<and> (STATUS_STR @ ''.'' @ REV_CHECK_STR \<in> set (revealed_names demo_marked 1 demo_status_cred)
            \<longleftrightarrow> credStatus demo_status_cred \<noteq> None))
    \<and> (\<forall>p m. (p, m) \<in> set revealedMsgs
          \<longleftrightarrow> p < length (fst (flatten (cred_schema demo_status_cred))) \<and> p < length (attributeVector demo_status_cred)
              \<and> fst (flatten (cred_schema demo_status_cred)) ! p \<in> set (revealed_names demo_marked 1 demo_status_cred)
              \<and> m = attributeVector demo_status_cred ! p)
    \<and> (\<forall>p m. (p, m) \<in> set unrevealedMsgs
          \<longleftrightarrow> p < length (fst (flatten (cred_schema demo_status_cred))) \<and> p < length (attributeVector demo_status_cred)
              \<and> fst (flatten (cred_schema demo_status_cred)) ! p \<notin> set (revealed_names demo_marked 1 demo_status_cred)
              \<and> m = attributeVector demo_status_cred ! p))"
proof -
  have h1: "finalize demo_ext demo_marked = Inr demo_finalized"
    by (rule demo_finalize)
  have h2: "1 < length (credentials demo_marked)"
    by (simp add: demo_credentials)
  have h3: "credentials demo_marked ! 1 = (demo_status_cred, [4])"
    by (simp add: demo_credentials)
  have h0: "subject_names_only demo_marked"
    by code_simp
  have h4: "out_statements demo_finalized ! 1
       = StatementBbsSignature (demo_params 7) [4]
           [(0, [20]), (1, [21]), (2, [22]), (6, [26])] False"
    by (simp add: demo_finalized_def)
  have h5: "out_witnesses demo_finalized ! 1
       = WitnessBbsSignature [8] [(3, [65]), (4, [24]), (5, [11])] False"
    by (simp add: demo_finalized_def)
  show ?thesis
    by (intro conjI h0 h1 h2 h3 h4 h5 finalize_revealed_attributes [OF h1 h2 h3])
qed

lemma status_aux_length:
  assumes "\<forall>(j, c, p) \<in> set (enumerate k xs).
             credStatus c \<noteq> None \<longrightarrow> status_aux ext (j, c, p) \<noteq> []"
  shows "length (concat (map (status_aux ext) (enumerate k xs))) = length (filter has_status xs)"
  using assms
proof (induction xs arbitrary: k)
  case Nil
  then show ?case by simp
next
  case (Cons x xs)
  obtain c p where x: "x = (c, p)" by (cases x)
  have ih: "length (concat (map (status_aux ext) (enumerate (Suc k) xs)))
              = length (filter has_status xs)"
    using Cons.prems by (intro Cons.IH) simp
  have one: "length (status_aux ext (k, c, p)) = (if credStatus c \<noteq> None then 1 else 0)"
    using Cons.prems by (auto simp: x status_aux_def split: option.splits)
  show ?case using ih one by (simp add: x has_status_def)
qed

lemma status_creds_nth:
  assumes ok: "\<forall>(j, c, p) \<in> set (enumerate 0 (credentials b)).
             credStatus c \<noteq> None \<longrightarrow> status_aux ext (j, c, p) \<noteq> []"
    and i: "i < length (credentials b)" and ci: "credentials b ! i = (cred, pk)"
    and st: "credStatus cred = Some status"
  shows "\<exists>enc. encodeMessage ext (encoder (cred_schema cred)) (STATUS_STR @ ''.'' @ REV_ID_STR)
                  (revocationId status) = Some enc
           \<and> length (filter has_status (take i (credentials b))) < length (status_creds ext b)
           \<and> status_creds ext b ! length (filter has_status (take i (credentials b)))
               = (i, revocationCheck status, enc)"
proof -
  let ?cs = "credentials b"
  have split: "?cs = take i ?cs @ (cred, pk) # drop (Suc i) ?cs"
    using i ci by (metis id_take_nth_drop)
  have en: "enumerate 0 ?cs
      = enumerate 0 (take i ?cs) @ (i, cred, pk) # enumerate (Suc i) (drop (Suc i) ?cs)"
    using i by (subst split) (simp add: enumerate_append_eq min_def)
  have "(i, cred, pk) \<in> set (enumerate 0 ?cs)" by (subst en) simp
  then have ne: "status_aux ext (i, cred, pk) \<noteq> []" using ok st by auto
  then obtain enc where
    enc: "encodeMessage ext (encoder (cred_schema cred)) (STATUS_STR @ ''.'' @ REV_ID_STR)
                  (revocationId status) = Some enc"
    and aux: "status_aux ext (i, cred, pk) = [(i, revocationCheck status, enc)]"
    using st by (auto simp: status_aux_def split: option.splits)
  have okpre: "\<forall>(j, c, p) \<in> set (enumerate 0 (take i ?cs)).
             credStatus c \<noteq> None \<longrightarrow> status_aux ext (j, c, p) \<noteq> []"
    using ok by (subst (asm) en) auto
  let ?pre = "concat (map (status_aux ext) (enumerate 0 (take i ?cs)))"
  have len: "length ?pre = length (filter has_status (take i ?cs))"
    by (rule status_aux_length [OF okpre])
  have sc: "status_creds ext b
      = ?pre @ (i, revocationCheck status, enc)
          # concat (map (status_aux ext) (enumerate (Suc i) (drop (Suc i) ?cs)))"
    unfolding status_creds_def by (subst en) (simp add: aux)
  have "status_creds ext b ! length ?pre = (i, revocationCheck status, enc)"
    by (subst sc) (rule nth_append_length)
  moreover have "length ?pre < length (status_creds ext b)" by (subst sc) simp
  ultimately show ?thesis using enc len by auto
qed

lemma fold_err_Inl:
  assumes "fold_err f xs st = Inl e" and "\<And>x s err. f x s = Inl err \<Longrightarrow> P err"
  shows "P e"
  using assms(1)
proof (induction xs arbitrary: st)
  case Nil
  then show ?case by simp
next
  case (Cons x xs)
  show ?case
  proof (cases "f x st")
    case (Inl err)
    then show ?thesis using Cons.prems assms(2) by auto
  next
    case (Inr st')
    then show ?thesis using Cons.prems Cons.IH by auto
  qed
qed

lemma adapt_Error: "adapt ext p n = Inl e \<Longrightarrow> \<exists>msg. e = Error msg"
  by (auto simp: adapt_def Let_def split: option.splits)

lemma map_sum_id_Inl: "map_sum id f x = Inl e \<Longrightarrow> x = Inl e"
  by (cases x) auto

lemma getRevealedAndUnrevealed_Error:
  "getRevealedAndUnrevealed names msgs rn = Inl e \<Longrightarrow> \<exists>msg. e = Error msg"
  by (auto simp: getRevealedAndUnrevealed_def split: if_splits)

lemma cred_step_Error: "cred_step ext b x st = Inl e \<Longrightarrow> \<exists>msg. e = Error msg"
  unfolding cred_step_def
  by (auto simp: Let_def dest!: map_sum_id_Inl adapt_Error getRevealedAndUnrevealed_Error
        split: prod.splits sum.splits option.splits if_splits)

lemma status_step_Error: "status_step b fl x st = Inl e \<Longrightarrow> \<exists>msg. e = Error msg"
  unfolding status_step_def
  by (auto simp: Let_def
        split: prod.splits sum.splits option.splits if_splits AccumulatorWitness.splits)

lemma resolve_ref_Error: "resolve_ref fl x refs = Inl e \<Longrightarrow> \<exists>msg. e = Error msg"
  unfolding resolve_ref_def
  by (auto simp: Let_def split: prod.splits option.splits if_splits)

lemma equality_step_Error: "equality_step fl eql metas = Inl e \<Longrightarrow> \<exists>msg. e = Error msg"
  unfolding equality_step_def
  by (auto split: sum.splits dest: fold_err_Inl [where P = "\<lambda>e. \<exists>msg. e = Error msg"]
        intro: resolve_ref_Error)

lemma finalize_Error:
  assumes "finalize ext b = Inl e"
  shows "\<exists>msg. e = Error msg"
proof -
  note l1 = fold_err_Inl [where f = "cred_step ext b" and P = "\<lambda>e. \<exists>msg. e = Error msg",
      OF _ cred_step_Error]
  note l2 = fold_err_Inl [where P = "\<lambda>e. \<exists>msg. e = Error msg", OF _ status_step_Error]
  note l3 = fold_err_Inl [where P = "\<lambda>e. \<exists>msg. e = Error msg", OF _ equality_step_Error]
  show ?thesis
    using assms unfolding finalize_def Let_def
    by (auto split: sum.splits prod.splits dest: l1 l2 l3)
qed

text \<open>
  C4. Let \<open>cred\<close> at index \<open>i\<close> have a status, and let \<open>k\<close> status-bearing credentials come
  before it. If \<open>finalize\<close> returns \<open>r\<close>, the builder holds status details for \<open>i\<close> whose
  witness is a membership witness exactly when the check is \<open>MEM_CHECK_STR\<close>; there is one
  accumulator statement per status-bearing credential after the signature statements;
  the one for \<open>i\<close>, at index \<open>n + k\<close>, is a membership statement for that check and a
  non-membership statement otherwise, its witness holds the encoded \<open>status.revocationId\<close>,
  and meta-statement \<open>k\<close> equates the flattened position of \<open>status.revocationId\<close> in
  statement \<open>i\<close> with position 0 of statement \<open>n + k\<close>. If the builder holds no status
  details for \<open>i\<close>, or a witness of the other kind, \<open>finalize\<close> throws an error.
\<close>

theorem finalize_status_statements:
  "(finalize ext b = Inr r \<and> i < length (credentials b) \<and> credentials b ! i = (cred, pk)
      \<and> credStatus cred = Some status
     \<longrightarrow> (\<exists>wit acc apk extra enc k.
            map_of (credStatuses b) (int i) = Some (wit, acc, apk, extra)
          \<and> (revocationCheck status = MEM_CHECK_STR \<longleftrightarrow> is_membership wit)
          \<and> encodeMessage ext (encoder (cred_schema cred)) (STATUS_STR @ ''.'' @ REV_ID_STR)
               (revocationId status) = Some enc
          \<and> k = length (filter has_status (take i (credentials b)))
          \<and> length (out_statements r)
               = length (credentials b) + length (filter has_status (credentials b))
          \<and> out_statements r ! (length (credentials b) + k)
               = (if revocationCheck status = MEM_CHECK_STR
                  then StatementAccumulatorMembership dockAccumulatorParams apk
                         dockAccumulatorMemProvingKey acc
                  else StatementAccumulatorNonMembership dockAccumulatorParams apk
                         dockAccumulatorNonMemProvingKey acc)
          \<and> out_witnesses r ! (length (credentials b) + k)
               = (if revocationCheck status = MEM_CHECK_STR
                  then WitnessAccumulatorMembership enc wit
                  else WitnessAccumulatorNonMembership enc wit)
          \<and> out_metaStatements r ! k
               = WitnessEquality
                   [(int i, indexOf (fst (flatten (cred_schema cred)))
                              (STATUS_STR @ ''.'' @ REV_ID_STR)),
                    (int (length (credentials b) + k), 0)]))
   \<and> (i < length (credentials b) \<and> credentials b ! i = (cred, pk)
        \<and> credStatus cred = Some status \<and> map_of (credStatuses b) (int i) = None
       \<longrightarrow> (\<exists>msg. finalize ext b = Inl (Error msg)))
   \<and> (i < length (credentials b) \<and> credentials b ! i = (cred, pk)
        \<and> credStatus cred = Some status
        \<and> map_of (credStatuses b) (int i) = Some (wit', acc', apk', extra')
        \<and> (revocationCheck status = MEM_CHECK_STR) \<noteq> is_membership wit'
       \<longrightarrow> (\<exists>msg. finalize ext b = Inl (Error msg)))"
proof -
  have main: "\<exists>wit acc apk extra enc.
            map_of (credStatuses b) (int i) = Some (wit, acc, apk, extra)
          \<and> (revocationCheck status = MEM_CHECK_STR \<longleftrightarrow> is_membership wit)
          \<and> encodeMessage ext (encoder (cred_schema cred)) (STATUS_STR @ ''.'' @ REV_ID_STR)
               (revocationId status) = Some enc
          \<and> length (out_statements r)
               = length (credentials b) + length (filter has_status (credentials b))
          \<and> out_statements r ! (length (credentials b) + length (filter has_status (take i (credentials b))))
               = accum_statement (revocationCheck status) apk acc
          \<and> out_witnesses r ! (length (credentials b) + length (filter has_status (take i (credentials b))))
               = accum_witness (revocationCheck status) enc wit
          \<and> out_metaStatements r ! length (filter has_status (take i (credentials b)))
               = WitnessEquality
                   [(int i, indexOf (fst (flatten (cred_schema cred)))
                              (STATUS_STR @ ''.'' @ REV_ID_STR)),
                    (int (length (credentials b) + length (filter has_status (take i (credentials b)))), 0)]"
    if fin: "finalize ext b = Inr r" and i: "i < length (credentials b)"
      and ci: "credentials b ! i = (cred, pk)" and st: "credStatus cred = Some status"
    for r i cred pk status
  proof -
    note f = finalize_Inr [OF fin]
    let ?n = "length (credentials b)"
    let ?k = "length (filter has_status (take i (credentials b)))"
    have ok: "\<forall>(j, c, p) \<in> set (enumerate 0 (credentials b)).
             credStatus c \<noteq> None \<longrightarrow> status_aux ext (j, c, p) \<noteq> []"
      using f(6) by auto
    from status_creds_nth [OF ok i ci st] obtain enc where
      enc: "encodeMessage ext (encoder (cred_schema cred)) (STATUS_STR @ ''.'' @ REV_ID_STR)
                  (revocationId status) = Some enc"
      and klt: "?k < length (status_creds ext b)"
      and nth: "status_creds ext b ! ?k = (i, revocationCheck status, enc)" by blast
    have mem: "(i, revocationCheck status, enc) \<in> set (status_creds ext b)"
      using klt nth by (metis nth_mem)
    from f(7) mem obtain wit acc apk extra where
      sd: "map_of (credStatuses b) (int i) = Some (wit, acc, apk, extra)"
      and kind: "revocationCheck status = MEM_CHECK_STR \<longleftrightarrow> is_membership wit"
      by fastforce
    have len: "length (out_statements r) = ?n + length (filter has_status (credentials b))"
      using f(1) status_aux_length [OF ok] by (simp add: status_creds_def)
    have s: "out_statements r ! (?n + ?k) = accum_statement (revocationCheck status) apk acc"
      using f(1) klt nth sd by (simp add: nth_append expected_accum_statement_def)
    have w: "out_witnesses r ! (?n + ?k) = accum_witness (revocationCheck status) enc wit"
      using f(2) klt nth sd by (simp add: nth_append expected_accum_witness_def)
    have fl: "flattened_schemas b ! i = flatten (cred_schema cred)"
      using i ci by (simp add: flattened_schemas_def)
    have m: "out_metaStatements r ! ?k
               = WitnessEquality
                   [(int i, indexOf (fst (flatten (cred_schema cred)))
                              (STATUS_STR @ ''.'' @ REV_ID_STR)),
                    (int (?n + ?k), 0)]"
      using f(3) klt nth fl by (simp add: nth_append nth_enumerate_eq status_meta_def)
    show ?thesis using sd kind enc len s w m by blast
  qed
  show ?thesis
  proof (intro conjI impI)
    assume a: "finalize ext b = Inr r \<and> i < length (credentials b)
        \<and> credentials b ! i = (cred, pk) \<and> credStatus cred = Some status"
    then show "\<exists>wit acc apk extra enc k.
            map_of (credStatuses b) (int i) = Some (wit, acc, apk, extra)
          \<and> (revocationCheck status = MEM_CHECK_STR \<longleftrightarrow> is_membership wit)
          \<and> encodeMessage ext (encoder (cred_schema cred)) (STATUS_STR @ ''.'' @ REV_ID_STR)
               (revocationId status) = Some enc
          \<and> k = length (filter has_status (take i (credentials b)))
          \<and> length (out_statements r)
               = length (credentials b) + length (filter has_status (credentials b))
          \<and> out_statements r ! (length (credentials b) + k)
               = (if revocationCheck status = MEM_CHECK_STR
                  then StatementAccumulatorMembership dockAccumulatorParams apk
                         dockAccumulatorMemProvingKey acc
                  else StatementAccumulatorNonMembership dockAccumulatorParams apk
                         dockAccumulatorNonMemProvingKey acc)
          \<and> out_witnesses r ! (length (credentials b) + k)
               = (if revocationCheck status = MEM_CHECK_STR
                  then WitnessAccumulatorMembership enc wit
                  else WitnessAccumulatorNonMembership enc wit)
          \<and> out_metaStatements r ! k
               = WitnessEquality
                   [(int i, indexOf (fst (flatten (cred_schema cred)))
                              (STATUS_STR @ ''.'' @ REV_ID_STR)),
                    (int (length (credentials b) + k), 0)]"
      using main [of r i cred pk status]
      unfolding accum_statement_def accum_witness_def by blast
  next
    assume a: "i < length (credentials b) \<and> credentials b ! i = (cred, pk)
        \<and> credStatus cred = Some status \<and> map_of (credStatuses b) (int i) = None"
    show "\<exists>msg. finalize ext b = Inl (Error msg)"
    proof (cases "finalize ext b")
      case (Inl e)
      then show ?thesis using finalize_Error [of ext b e] by auto
    next
      case (Inr r')
      then show ?thesis using main [of r' i cred pk status] a by auto
    qed
  next
    assume a: "i < length (credentials b) \<and> credentials b ! i = (cred, pk)
        \<and> credStatus cred = Some status
        \<and> map_of (credStatuses b) (int i) = Some (wit', acc', apk', extra')
        \<and> (revocationCheck status = MEM_CHECK_STR) \<noteq> is_membership wit'"
    show "\<exists>msg. finalize ext b = Inl (Error msg)"
    proof (cases "finalize ext b")
      case (Inl e)
      then show ?thesis using finalize_Error [of ext b e] by auto
    next
      case (Inr r')
      then show ?thesis using main [of r' i cred pk status] a by auto
    qed
  qed
qed

theorem finalize_status_statements_witness:
  "(finalize demo_ext demo_marked = Inr demo_finalized
    \<and> 1 < length (credentials demo_marked)
    \<and> credentials demo_marked ! 1 = (demo_status_cred, [4])
    \<and> credStatus demo_status_cred = Some demo_status
    \<and> out_statements demo_finalized ! 2
        = StatementAccumulatorMembership dockAccumulatorParams [7]
            dockAccumulatorMemProvingKey [6]
    \<and> out_metaStatements demo_finalized ! 0 = WitnessEquality [(1, 3), (2, 0)]
    \<and> (\<exists>wit acc apk extra enc k.
            map_of (credStatuses demo_marked) (int 1) = Some (wit, acc, apk, extra)
          \<and> (revocationCheck demo_status = MEM_CHECK_STR \<longleftrightarrow> is_membership wit)
          \<and> encodeMessage demo_ext (encoder (cred_schema demo_status_cred)) (STATUS_STR @ ''.'' @ REV_ID_STR)
               (revocationId demo_status) = Some enc
          \<and> k = length (filter has_status (take 1 (credentials demo_marked)))
          \<and> length (out_statements demo_finalized)
               = length (credentials demo_marked) + length (filter has_status (credentials demo_marked))
          \<and> out_statements demo_finalized ! (length (credentials demo_marked) + k)
               = (if revocationCheck demo_status = MEM_CHECK_STR
                  then StatementAccumulatorMembership dockAccumulatorParams apk
                         dockAccumulatorMemProvingKey acc
                  else StatementAccumulatorNonMembership dockAccumulatorParams apk
                         dockAccumulatorNonMemProvingKey acc)
          \<and> out_witnesses demo_finalized ! (length (credentials demo_marked) + k)
               = (if revocationCheck demo_status = MEM_CHECK_STR
                  then WitnessAccumulatorMembership enc wit
                  else WitnessAccumulatorNonMembership enc wit)
          \<and> out_metaStatements demo_finalized ! k
               = WitnessEquality
                   [(int 1, indexOf (fst (flatten (cred_schema demo_status_cred)))
                              (STATUS_STR @ ''.'' @ REV_ID_STR)),
                    (int (length (credentials demo_marked) + k), 0)]))
   \<and> (map_of (credStatuses demo_builder) (int 1) = None
      \<and> (\<exists>msg. finalize demo_ext demo_builder = Inl (Error msg)))
   \<and> (map_of (credStatuses demo_mismatch) (int 1)
        = Some (NonMembershipWitness [5], [6], [7], JNull)
      \<and> (revocationCheck demo_status = MEM_CHECK_STR)
          \<noteq> is_membership (NonMembershipWitness [5])
      \<and> (\<exists>msg. finalize demo_ext demo_mismatch = Inl (Error msg)))"
proof -
  note t = finalize_status_statements
    [where ext = demo_ext and r = demo_finalized and i = 1 and cred = demo_status_cred
       and pk = "[4]" and status = demo_status and wit' = "NonMembershipWitness [5]"
       and acc' = "[6]" and apk' = "[7]" and extra' = JNull]
  have h1: "finalize demo_ext demo_marked = Inr demo_finalized"
    by (rule demo_finalize)
  have h2: "1 < length (credentials b)"
    if "credentials b = [(demo_cred, [3]), (demo_status_cred, [4])]" for b
    using that by simp
  have h3: "credentials b ! 1 = (demo_status_cred, [4])"
    if "credentials b = [(demo_cred, [3]), (demo_status_cred, [4])]" for b
    using that by simp
  note h4 = demo_credStatus
  have h5: "out_statements demo_finalized ! 2
        = StatementAccumulatorMembership dockAccumulatorParams [7]
            dockAccumulatorMemProvingKey [6]"
    by (simp add: demo_finalized_def)
  have h6: "out_metaStatements demo_finalized ! 0 = WitnessEquality [(1, 3), (2, 0)]"
    by (simp add: demo_finalized_def)
  have n1: "map_of (credStatuses demo_builder) (int 1) = None"
    by (simp add: demo_builder_def new_PresentationBuilder_def)
  have m1: "map_of (credStatuses demo_mismatch) (int 1)
        = Some (NonMembershipWitness [5], [6], [7], JNull)"
    by (simp add: demo_mismatch_def)
  have m2: "(revocationCheck demo_status = MEM_CHECK_STR)
          \<noteq> is_membership (NonMembershipWitness [5])"
    by (simp add: demo_status_def MEM_CHECK_STR_def)
  have a: "(\<exists>wit acc apk extra enc k.
            map_of (credStatuses demo_marked) (int 1) = Some (wit, acc, apk, extra)
          \<and> (revocationCheck demo_status = MEM_CHECK_STR \<longleftrightarrow> is_membership wit)
          \<and> encodeMessage demo_ext (encoder (cred_schema demo_status_cred)) (STATUS_STR @ ''.'' @ REV_ID_STR)
               (revocationId demo_status) = Some enc
          \<and> k = length (filter has_status (take 1 (credentials demo_marked)))
          \<and> length (out_statements demo_finalized)
               = length (credentials demo_marked) + length (filter has_status (credentials demo_marked))
          \<and> out_statements demo_finalized ! (length (credentials demo_marked) + k)
               = (if revocationCheck demo_status = MEM_CHECK_STR
                  then StatementAccumulatorMembership dockAccumulatorParams apk
                         dockAccumulatorMemProvingKey acc
                  else StatementAccumulatorNonMembership dockAccumulatorParams apk
                         dockAccumulatorNonMemProvingKey acc)
          \<and> out_witnesses demo_finalized ! (length (credentials demo_marked) + k)
               = (if revocationCheck demo_status = MEM_CHECK_STR
                  then WitnessAccumulatorMembership enc wit
                  else WitnessAccumulatorNonMembership enc wit)
          \<and> out_metaStatements demo_finalized ! k
               = WitnessEquality
                   [(int 1, indexOf (fst (flatten (cred_schema demo_status_cred)))
                              (STATUS_STR @ ''.'' @ REV_ID_STR)),
                    (int (length (credentials demo_marked) + k), 0)])"
    by (rule mp [OF conjunct1 [OF t [where b = demo_marked]]])
      (intro conjI h1 h2 h3 h4 demo_credentials)
  have b: "(\<exists>msg. finalize demo_ext demo_builder = Inl (Error msg))"
    by (rule mp [OF conjunct1 [OF conjunct2 [OF t [where b = demo_builder]]]])
      (intro conjI h2 h3 h4 n1 demo_credentials)
  have c: "(\<exists>msg. finalize demo_ext demo_mismatch = Inl (Error msg))"
    by (rule mp [OF conjunct2 [OF conjunct2 [OF t [where b = demo_mismatch]]]])
      (intro conjI h2 h3 h4 m1 m2 demo_credentials)
  show ?thesis
    by (intro conjI h1 h2 h3 h4 h5 h6 n1 m1 m2 a b c demo_credentials)
qed

text \<open>
  C7. If \<open>finalize\<close> returns \<open>r\<close>, its meta-statements after those of the status-bearing
  credentials are one witness-equality per attribute-equality request, in order, whose
  references are the credential indices with the positions of the names
  \<open>credentialSubject.<name>\<close> in the flattened schemas of those credentials (each position
  is where that name stands). If a request names, for a credential of the builder, an
  attribute that its flattened schema does not have (\<open>indexOf\<close> is \<open>-1\<close>), \<open>finalize\<close>
  throws an error.
\<close>

theorem finalize_attribute_equalities:
  "(finalize ext b = Inr r
     \<longrightarrow> drop (length (filter has_status (credentials b))) (out_metaStatements r)
           = map (equality_meta (flattened_schemas b)) (attributeEqualities b)
         \<and> (\<forall>eql \<in> set (attributeEqualities b). \<forall>(cIdx, name) \<in> set eql.
               0 \<le> cIdx \<and> cIdx < int (length (credentials b))
             \<and> flattened_schemas b ! nat cIdx
                 = flatten (cred_schema (fst (credentials b ! nat cIdx)))
             \<and> 0 \<le> indexOf (fst (flattened_schemas b ! nat cIdx)) (SUBJECT_STR @ ''.'' @ name)
             \<and> fst (flattened_schemas b ! nat cIdx)
                   ! nat (indexOf (fst (flattened_schemas b ! nat cIdx))
                            (SUBJECT_STR @ ''.'' @ name))
                 = SUBJECT_STR @ ''.'' @ name))
   \<and> (eql' \<in> set (attributeEqualities b) \<and> (cIdx', name') \<in> set eql'
        \<and> 0 \<le> cIdx' \<and> cIdx' < int (length (credentials b))
        \<and> indexOf (fst (flatten (cred_schema (fst (credentials b ! nat cIdx')))))
             (SUBJECT_STR @ ''.'' @ name') = - 1
       \<longrightarrow> (\<exists>msg. finalize ext b = Inl (Error msg)))"
proof -
  have nthfl: "flattened_schemas b ! nat c = flatten (cred_schema (fst (credentials b ! nat c)))"
    if "0 \<le> c" "c < int (length (credentials b))" for c
  proof -
    have "nat c < length (credentials b)" using that by linarith
    then show ?thesis by (simp add: flattened_schemas_def case_prod_beta)
  qed
  have main: "drop (length (filter has_status (credentials b))) (out_metaStatements r)
           = map (equality_meta (flattened_schemas b)) (attributeEqualities b)
         \<and> (\<forall>eql \<in> set (attributeEqualities b). \<forall>(cIdx, name) \<in> set eql.
               0 \<le> cIdx \<and> cIdx < int (length (credentials b))
             \<and> flattened_schemas b ! nat cIdx
                 = flatten (cred_schema (fst (credentials b ! nat cIdx)))
             \<and> 0 \<le> indexOf (fst (flattened_schemas b ! nat cIdx)) (SUBJECT_STR @ ''.'' @ name)
             \<and> fst (flattened_schemas b ! nat cIdx)
                   ! nat (indexOf (fst (flattened_schemas b ! nat cIdx))
                            (SUBJECT_STR @ ''.'' @ name))
                 = SUBJECT_STR @ ''.'' @ name)"
    if fin: "finalize ext b = Inr r" for r
  proof -
    note f = finalize_Inr [OF fin]
    have ok: "\<forall>(j, c, p) \<in> set (enumerate 0 (credentials b)).
             credStatus c \<noteq> None \<longrightarrow> status_aux ext (j, c, p) \<noteq> []"
      using f(6) by auto
    have len: "length (status_creds ext b) = length (filter has_status (credentials b))"
      using status_aux_length [OF ok] by (simp add: status_creds_def)
    have d: "drop (length (filter has_status (credentials b))) (out_metaStatements r)
           = map (equality_meta (flattened_schemas b)) (attributeEqualities b)"
      using f(3) len by simp
    have a: "\<forall>eql \<in> set (attributeEqualities b). \<forall>(cIdx, name) \<in> set eql.
               0 \<le> cIdx \<and> cIdx < int (length (credentials b))
             \<and> flattened_schemas b ! nat cIdx
                 = flatten (cred_schema (fst (credentials b ! nat cIdx)))
             \<and> 0 \<le> indexOf (fst (flattened_schemas b ! nat cIdx)) (SUBJECT_STR @ ''.'' @ name)
             \<and> fst (flattened_schemas b ! nat cIdx)
                   ! nat (indexOf (fst (flattened_schemas b ! nat cIdx))
                            (SUBJECT_STR @ ''.'' @ name))
                 = SUBJECT_STR @ ''.'' @ name"
    proof (intro ballI, clarify)
      fix eql c name
      assume e1: "eql \<in> set (attributeEqualities b)" and e2: "(c, name) \<in> set eql"
      from f(8) e1 have "\<forall>(cIdx, name) \<in> set eql.
           0 \<le> cIdx \<and> cIdx < int (length (credentials b))
             \<and> SUBJECT_STR @ ''.'' @ name \<in> set (fst (flattened_schemas b ! nat cIdx))"
        by (rule bspec)
      from this e2 have "case (c, name) of (cIdx, name) \<Rightarrow>
           0 \<le> cIdx \<and> cIdx < int (length (credentials b))
             \<and> SUBJECT_STR @ ''.'' @ name \<in> set (fst (flattened_schemas b ! nat cIdx))"
        by (rule bspec)
      then have rng: "0 \<le> c" "c < int (length (credentials b))"
        and mem: "SUBJECT_STR @ ''.'' @ name \<in> set (fst (flattened_schemas b ! nat c))"
        by simp_all
      show "0 \<le> c \<and> c < int (length (credentials b))
             \<and> flattened_schemas b ! nat c
                 = flatten (cred_schema (fst (credentials b ! nat c)))
             \<and> 0 \<le> indexOf (fst (flattened_schemas b ! nat c)) (SUBJECT_STR @ ''.'' @ name)
             \<and> fst (flattened_schemas b ! nat c)
                   ! nat (indexOf (fst (flattened_schemas b ! nat c))
                            (SUBJECT_STR @ ''.'' @ name))
                 = SUBJECT_STR @ ''.'' @ name"
        using rng nthfl [OF rng] indexOf_present [OF mem] by simp
    qed
    show ?thesis by (rule conjI [OF d a])
  qed
  show ?thesis
  proof (intro conjI impI)
    assume fin: "finalize ext b = Inr r"
    show "drop (length (filter has_status (credentials b))) (out_metaStatements r)
           = map (equality_meta (flattened_schemas b)) (attributeEqualities b)"
      by (rule conjunct1 [OF main [OF fin]])
  next
    assume fin: "finalize ext b = Inr r"
    show "\<forall>eql \<in> set (attributeEqualities b). \<forall>(cIdx, name) \<in> set eql.
               0 \<le> cIdx \<and> cIdx < int (length (credentials b))
             \<and> flattened_schemas b ! nat cIdx
                 = flatten (cred_schema (fst (credentials b ! nat cIdx)))
             \<and> 0 \<le> indexOf (fst (flattened_schemas b ! nat cIdx)) (SUBJECT_STR @ ''.'' @ name)
             \<and> fst (flattened_schemas b ! nat cIdx)
                   ! nat (indexOf (fst (flattened_schemas b ! nat cIdx))
                            (SUBJECT_STR @ ''.'' @ name))
                 = SUBJECT_STR @ ''.'' @ name"
      by (rule conjunct2 [OF main [OF fin]])
  next
    assume a: "eql' \<in> set (attributeEqualities b) \<and> (cIdx', name') \<in> set eql'
        \<and> 0 \<le> cIdx' \<and> cIdx' < int (length (credentials b))
        \<and> indexOf (fst (flatten (cred_schema (fst (credentials b ! nat cIdx')))))
             (SUBJECT_STR @ ''.'' @ name') = - 1"
    show "\<exists>msg. finalize ext b = Inl (Error msg)"
    proof (cases "finalize ext b")
      case (Inl e)
      then show ?thesis using finalize_Error [of ext b e] by auto
    next
      case (Inr r')
      note f = finalize_Inr [OF Inr]
      from f(8) a have "\<forall>(cIdx, name) \<in> set eql'.
           0 \<le> cIdx \<and> cIdx < int (length (credentials b))
             \<and> SUBJECT_STR @ ''.'' @ name \<in> set (fst (flattened_schemas b ! nat cIdx))"
        by blast
      moreover have "(cIdx', name') \<in> set eql'" using a by simp
      ultimately have "case (cIdx', name') of (cIdx, name) \<Rightarrow>
           0 \<le> cIdx \<and> cIdx < int (length (credentials b))
             \<and> SUBJECT_STR @ ''.'' @ name \<in> set (fst (flattened_schemas b ! nat cIdx))"
        by (rule bspec)
      then have "SUBJECT_STR @ ''.'' @ name' \<in> set (fst (flattened_schemas b ! nat cIdx'))"
        by simp
      then have found: "indexOf (fst (flattened_schemas b ! nat cIdx'))
                   (SUBJECT_STR @ ''.'' @ name') \<noteq> - 1"
        using indexOf_absent [of "fst (flattened_schemas b ! nat cIdx')"
                "SUBJECT_STR @ ''.'' @ name'"] by simp
      have r1: "0 \<le> cIdx'" and r2: "cIdx' < int (length (credentials b))"
        and absent: "indexOf (fst (flatten (cred_schema (fst (credentials b ! nat cIdx')))))
             (SUBJECT_STR @ ''.'' @ name') = - 1"
        using a by blast+
      have "indexOf (fst (flattened_schemas b ! nat cIdx')) (SUBJECT_STR @ ''.'' @ name') = - 1"
        unfolding nthfl [OF r1 r2] by (rule absent)
      then show ?thesis using found by contradiction
    qed
  qed
qed

theorem finalize_attribute_equalities_witness:
  "(finalize demo_ext demo_marked = Inr demo_finalized
    \<and> out_metaStatements demo_finalized
        = [WitnessEquality [(1, 3), (2, 0)], WitnessEquality [(0, 1), (1, 5)]]
    \<and> drop (length (filter has_status (credentials demo_marked)))
          (out_metaStatements demo_finalized)
        = map (equality_meta (flattened_schemas demo_marked)) (attributeEqualities demo_marked)
    \<and> [(0, ''fname''), (1, ''fname'')] \<in> set (attributeEqualities demo_marked)
    \<and> (1, ''fname'') \<in> set [(0 :: int, ''fname''), (1, ''fname'')]
    \<and> 0 \<le> (1 :: int) \<and> (1 :: int) < int (length (credentials demo_marked))
    \<and> flattened_schemas demo_marked ! nat 1
        = flatten (cred_schema (fst (credentials demo_marked ! nat 1)))
    \<and> 0 \<le> indexOf (fst (flattened_schemas demo_marked ! nat 1))
             (SUBJECT_STR @ ''.'' @ ''fname'')
    \<and> fst (flattened_schemas demo_marked ! nat 1)
          ! nat (indexOf (fst (flattened_schemas demo_marked ! nat 1))
                   (SUBJECT_STR @ ''.'' @ ''fname''))
        = SUBJECT_STR @ ''.'' @ ''fname'')
   \<and> ([(0, ''fname''), (1, ''lname'')] \<in> set (attributeEqualities demo_unknown_name)
      \<and> (1, ''lname'') \<in> set [(0 :: int, ''fname''), (1, ''lname'')]
      \<and> indexOf (fst (flatten (cred_schema (fst (credentials demo_unknown_name ! nat 1)))))
           (SUBJECT_STR @ ''.'' @ ''lname'') = - 1
      \<and> (\<exists>msg. finalize demo_ext demo_unknown_name = Inl (Error msg)))"
proof -
  note t = finalize_attribute_equalities
    [where ext = demo_ext and r = demo_finalized
       and eql' = "[(0, ''fname''), (1, ''lname'')]" and cIdx' = 1 and name' = "''lname''"]
  have h1: "finalize demo_ext demo_marked = Inr demo_finalized"
    by (rule demo_finalize)
  have h2: "out_metaStatements demo_finalized
        = [WitnessEquality [(1, 3), (2, 0)], WitnessEquality [(0, 1), (1, 5)]]"
    by (simp add: demo_finalized_def)
  have e1: "[(0, ''fname''), (1, ''fname'')] \<in> set (attributeEqualities demo_marked)"
    by (simp add: demo_marked_def)
  have e2: "(1, ''fname'') \<in> set [(0 :: int, ''fname''), (1, ''fname'')]"
    by simp
  note s = mp [OF conjunct1 [OF t [where b = demo_marked]] h1]
  note d = conjunct1 [OF s]
  note p = bspec [OF bspec [OF conjunct2 [OF s] e1] e2, unfolded prod.case]
  have u1: "[(0, ''fname''), (1, ''lname'')] \<in> set (attributeEqualities demo_unknown_name)"
    by (simp add: demo_unknown_name_def)
  have u2: "(1, ''lname'') \<in> set [(0 :: int, ''fname''), (1, ''lname'')]"
    by simp
  have u3: "0 \<le> (1 :: int)"
    by simp
  have u4: "(1 :: int) < int (length (credentials demo_unknown_name))"
    by (simp add: demo_credentials)
  have u5: "indexOf (fst (flatten (cred_schema (fst (credentials demo_unknown_name ! nat 1)))))
           (SUBJECT_STR @ ''.'' @ ''lname'') = - 1"
    by code_simp
  have f: "\<exists>msg. finalize demo_ext demo_unknown_name = Inl (Error msg)"
    by (rule mp [OF conjunct2 [OF t [where b = demo_unknown_name]]])
      (intro conjI u1 u2 u3 u4 u5)
  show ?thesis
    by (intro conjI h1 h2 d e1 e2 u1 u2 u5 f p [THEN conjunct1]
          p [THEN conjunct2, THEN conjunct1]
          p [THEN conjunct2, THEN conjunct2, THEN conjunct1]
          p [THEN conjunct2, THEN conjunct2, THEN conjunct2, THEN conjunct1]
          p [THEN conjunct2, THEN conjunct2, THEN conjunct2, THEN conjunct2])
qed

subsection \<open>Threshold signing rounds\<close>

lemmas signer_defs = startRound1_def processReceivedCommitments_def getSharesForOtherSigner_def
  getSharesForOtherSigners_def processReceivedShares_def finishR1_def startRound2_def
  processReceivedMsg1_def processReceivedMsg2_def finishRound2_def
  ensureRound1Started_def ensureRound1Finished_def ensureRound2Started_def
  hasStarted_def hasFinishedRound1_def hasStartedRound2_def

lemma inOrder_snoc: "inOrder (log @ [c]) = (inOrder log \<and> allowed log c)"
  by (auto simp: inOrder_def list_all_iff nth_append)

lemma call_inv:
  assumes "signer_inv (s, log)" and "call fs s c = Inr s'"
  shows "signer_inv (s', log @ [c])"
  using assms
  by (cases c)
     (auto simp: signer_inv_def inOrder_snoc allowed_def signer_defs
           split: option.splits sum.splits if_splits prod.splits)

lemma run_inv: "signer_inv sl \<Longrightarrow> signer_inv (run fs sl cs)"
proof (induction cs arbitrary: sl)
  case Nil
  then show ?case by (cases sl) simp
next
  case (Cons c cs)
  obtain s log where sl: "sl = (s, log)" by (cases sl)
  show ?case
  proof (cases "call fs s c")
    case (Inl e)
    then show ?thesis using Cons sl by simp
  next
    case (Inr s')
    then have "signer_inv (s', log @ [c])" using Cons.prems sl call_inv by blast
    then show ?thesis using Cons.IH Inr sl by simp
  qed
qed

lemma new_inv: "signer_inv (new_ThresholdSigner i os n p, [])"
  by (simp add: signer_inv_def new_ThresholdSigner_def inOrder_def signer_defs)

text \<open>
  C10. Take a new signer and let a client make any sequence of calls; \<open>log\<close> is the list
  of the calls that returned, in order, and \<open>s\<close> the signer they leave. Then on \<open>s\<close>:
  \<open>processReceivedCommitments\<close>, \<open>getSharesForOtherSigner\<close>, \<open>getSharesForOtherSigners\<close> and
  \<open>processReceivedShares\<close> throw "Round 1 has not started yet" unless \<open>startRound1\<close> is in the
  log; \<open>startRound2\<close> throws "Round 1 has not finished yet" unless round 1 was finished
  (\<open>finishR1\<close> is in the log); \<open>processReceivedMsg1\<close>, \<open>processReceivedMsg2\<close> and
  \<open>finishRound2\<close> throw "Round 2 has not started yet" unless \<open>startRound2\<close> is in the log.
  So in the log itself no call that processes a round-2 message comes before a
  \<open>startRound2\<close>, no \<open>startRound2\<close> before a \<open>finishR1\<close>, and no call that processes
  commitments or shares before a \<open>startRound1\<close> (\<open>inOrder\<close>).
\<close>

theorem signer_round_order:
  assumes "run fs (new_ThresholdSigner i os n p, []) cs = (s, log)"
  shows "(needsRound1Started c \<and> StartRound1 \<notin> set log
            \<longrightarrow> call fs s c = Inl (Error ''Round 1 has not started yet''))
       \<and> (isStartRound2 c \<and> \<not> list_ex isFinishR1 log
            \<longrightarrow> call fs s c = Inl (Error ''Round 1 has not finished yet''))
       \<and> (needsRound2Started c \<and> \<not> list_ex isStartRound2 log
            \<longrightarrow> call fs s c = Inl (Error ''Round 2 has not started yet''))
       \<and> inOrder log"
proof -
  have "signer_inv (run fs (new_ThresholdSigner i os n p, []) cs)"
    by (rule run_inv [OF new_inv])
  then have inv: "signer_inv (s, log)"
    using assms by simp
  have r1: "StartRound1 \<notin> set log \<Longrightarrow> \<not> hasStarted s"
    and f1: "\<not> list_ex isFinishR1 log \<Longrightarrow> \<not> hasFinishedRound1 s"
    and r2: "\<not> list_ex isStartRound2 log \<Longrightarrow> \<not> hasStartedRound2 s"
    and ord: "inOrder log"
    using inv by (auto simp: signer_inv_def)
  have a: "needsRound1Started c \<Longrightarrow> \<not> hasStarted s
             \<Longrightarrow> call fs s c = Inl (Error ''Round 1 has not started yet'')"
    by (cases c) (simp_all add: processReceivedCommitments_def getSharesForOtherSigner_def
          getSharesForOtherSigners_def processReceivedShares_def ensureRound1Started_def)
  have b: "isStartRound2 c \<Longrightarrow> \<not> hasFinishedRound1 s
             \<Longrightarrow> call fs s c = Inl (Error ''Round 1 has not finished yet'')"
    by (cases c) (simp_all add: startRound2_def ensureRound1Finished_def)
  have d: "needsRound2Started c \<Longrightarrow> \<not> hasStartedRound2 s
             \<Longrightarrow> call fs s c = Inl (Error ''Round 2 has not started yet'')"
    by (cases c) (simp_all add: processReceivedMsg1_def processReceivedMsg2_def
          finishRound2_def ensureRound2Started_def)
  show ?thesis using a b d r1 f1 r2 ord by blast
qed

lemma demo_run_empty:
  "run demo_funcs (new_ThresholdSigner 1 [2] 1 [0], [])
       [ProcessReceivedMsg1 2 [1] [1], StartRound2 [1] [1]]
     = (new_ThresholdSigner 1 [2] 1 [0], [])"
  by (simp add: demo_funcs_def new_ThresholdSigner_def signer_defs)

lemma demo_run_started:
  "run demo_funcs (new_ThresholdSigner 1 [2] 1 [0], [])
       [FinishRound2, StartRound1, StartRound2 [1] [1], ProcessReceivedShares 2 [1] [1]]
     = (new_ThresholdSigner 1 [2] 1 [0]
          \<lparr>comms := Some [2], commsForZero := Some [(2, [3])], round1State := Some [1, 7]\<rparr>,
        [StartRound1, ProcessReceivedShares 2 [1] [1]])"
  by (simp add: demo_funcs_def new_ThresholdSigner_def signer_defs)

theorem signer_round_order_witness:
  "run demo_funcs (new_ThresholdSigner 1 [2] 1 [0], [])
       [ProcessReceivedMsg1 2 [1] [1], StartRound2 [1] [1]]
     = (new_ThresholdSigner 1 [2] 1 [0], [])
   \<and> call demo_funcs (new_ThresholdSigner 1 [2] 1 [0]) (ProcessReceivedShares 2 [1] [1])
       = Inl (Error ''Round 1 has not started yet'')
   \<and> run demo_funcs (new_ThresholdSigner 1 [2] 1 [0], [])
       [FinishRound2, StartRound1, StartRound2 [1] [1], ProcessReceivedShares 2 [1] [1]]
     = (new_ThresholdSigner 1 [2] 1 [0]
          \<lparr>comms := Some [2], commsForZero := Some [(2, [3])], round1State := Some [1, 7]\<rparr>,
        [StartRound1, ProcessReceivedShares 2 [1] [1]])
   \<and> call demo_funcs (new_ThresholdSigner 1 [2] 1 [0]
          \<lparr>comms := Some [2], commsForZero := Some [(2, [3])], round1State := Some [1, 7]\<rparr>)
        (StartRound2 [1] [1])
       = Inl (Error ''Round 1 has not finished yet'')
   \<and> call demo_funcs (new_ThresholdSigner 1 [2] 1 [0]
          \<lparr>comms := Some [2], commsForZero := Some [(2, [3])], round1State := Some [1, 7]\<rparr>)
        FinishRound2
       = Inl (Error ''Round 2 has not started yet'')
   \<and> inOrder [StartRound1, ProcessReceivedShares 2 [1] [1]]"
  using signer_round_order [OF demo_run_empty, of "ProcessReceivedShares 2 [1] [1]"]
        signer_round_order [OF demo_run_started, of "StartRound2 [1] [1]"]
        signer_round_order [OF demo_run_started, of FinishRound2]
        demo_run_empty demo_run_started
  by simp

end
